theory Spec2Isabelle
  imports Main
begin

section \<open>Improv via BLE: the config flow\<close>

text \<open>
  The development embeds \<^verbatim>\<open>homeassistant/components/improv_ble/config_flow.py\<close>:
  the class \<^verbatim>\<open>ConfigFlow\<close>, its steps from \<^verbatim>\<open>async_step_start_improv\<close> on, the
  two background tasks and \<^verbatim>\<open>_try_call\<close>. The flow object is a record of its fields;
  what the steps reach outside the object (the tasks of the event loop, the callbacks
  registered with the device session, the flows in progress) is part of the same record,
  so that every effect of a step is visible in the state it returns.
\<close>

subsection \<open>Values of the client library\<close>

text \<open>
  \<^verbatim>\<open>State\<close> and \<^verbatim>\<open>Error\<close> are enums of improv_ble_client. The source names three
  states and two errors; \<open>AUTHORIZED\<close> stands for the remaining state (the device accepts
  credentials) and \<open>OTHER_ERROR\<close> for every other error code.
\<close>

datatype improv_state = AUTHORIZATION_REQUIRED | AUTHORIZED | PROVISIONING | PROVISIONED

datatype improv_error = NOT_AUTHORIZED | UNABLE_TO_CONNECT | OTHER_ERROR

text \<open>
  The exceptions the source tells apart. \<open>ProvisioningFailed\<close> is a subclass of
  \<open>CommandFailed\<close>: the clause \<^verbatim>\<open>except CommandFailed: raise\<close> of \<^verbatim>\<open>_try_call\<close> is what
  lets \<^verbatim>\<open>_do_provision\<close> see it. \<open>CommandFailed\<close> here is a command failure that is
  not a \<open>ProvisioningFailed\<close>. \<open>KeyError\<close> (no entry under the service data UUID) and
  \<open>InvalidCommand\<close> (the library rejects the bytes) are what reading the advertised
  service data can raise; \<open>OtherException\<close> is any other \<^verbatim>\<open>Exception\<close>.
\<close>

datatype exn =
    BleakError
  | CharacteristicMissingError
  | CommandFailed
  | ProvisioningFailed improv_error
  | OtherException
  | AbortFlow string
  | AssertionError
  | KeyError
  | InvalidCommand

text \<open>\<^verbatim>\<open>_try_call\<close>: the awaited call either returns (\<open>Inr\<close>) or raises (\<open>Inl\<close>).\<close>

fun try_call :: "exn + 'a \<Rightarrow> exn + 'a" where
  "try_call (Inr v) = Inr v"
| "try_call (Inl BleakError) = Inl (AbortFlow ''cannot_connect'')"
| "try_call (Inl CharacteristicMissingError) = Inl (AbortFlow ''characteristic_missing'')"
| "try_call (Inl CommandFailed) = Inl CommandFailed"
| "try_call (Inl (ProvisioningFailed err)) = Inl (ProvisioningFailed err)"
| "try_call (Inl e) = Inl (AbortFlow ''unknown'')"

subsection \<open>Flow results and step outcomes\<close>

datatype schema = STEP_PROVISION_SCHEMA

text \<open>
  A \<^verbatim>\<open>FlowResult\<close>, by the method that builds it: \<open>async_abort reason
  description_placeholders\<close>, \<open>async_show_form step_id data_schema errors\<close>,
  \<open>async_show_menu step_id menu_options\<close>, \<open>async_show_progress step_id
  progress_action\<close>, \<open>async_show_progress_done next_step_id\<close>. An argument the call
  leaves out is \<open>None\<close>. The description placeholders of a form (the device name on the
  confirm form) are not part of the model.
\<close>

datatype flow_result =
    async_abort string "(string \<times> string) list option"
  | async_show_form string "schema option" "(string \<times> string) list option"
  | async_show_menu string "string list"
  | async_show_progress string string
  | async_show_progress_done string

text \<open>
  A coroutine returns a value, raises, or is suspended at \<^verbatim>\<open>await task\<close> on a task that
  has not finished. A suspended step has changed nothing; what it does when the task
  finishes is what a fresh call of the step does then, since nothing precedes the
  \<^verbatim>\<open>await\<close> on that path.
\<close>

datatype 'a outcome = Return 'a | Raise exn | Await nat

subsection \<open>The state\<close>

record credentials =
  password :: string
  ssid :: string

datatype task_kind = AuthorizeWait | ProvisionAttempt

datatype task_status = Pending | Finished | Failed exn

record task =
  kind :: task_kind
  status :: task_status

datatype device_op =
    OpCanIdentify
  | OpIdentify
  | OpNeedAuthorization
  | OpSubscribeStateUpdates
  | OpProvision string string

text \<open>
  The fields of \<^verbatim>\<open>ConfigFlow\<close> come first (the leading underscore of the source is
  dropped). A task handle is the index of the task in \<open>tasks\<close>, the list of all tasks
  made by \<^verbatim>\<open>hass.async_create_task\<close> for this flow. \<open>device\<close> and \<open>discovery_info\<close>
  say whether the field holds an object. A callback registration is named by the task
  that waits for the \<^verbatim>\<open>asyncio.Event\<close> its callback sets (the event is made for that
  task alone); \<open>unsub\<close> holds that name, \<open>subscriptions\<close> are the registrations the
  device session holds, \<open>unsub_calls\<close> the registrations whose unsubscribe function was
  called, in order. \<open>resumes\<close> counts the calls of \<^verbatim>\<open>flow.async_configure(flow_id)\<close>
  scheduled by \<^verbatim>\<open>_resume_flow_when_done\<close>. \<open>in_progress\<close> lists the flows in progress
  as (flow id, unique id of the context), \<open>aborted\<close> the flows aborted through the flow
  manager, \<open>calls\<close> the operations of the device session that were invoked.
\<close>

record world =
  authorize_task :: "nat option"
  can_identify :: "bool option"
  credentials :: "credentials option"
  provision_result :: "flow_result option"
  provision_task :: "nat option"
  unsub :: "nat option"
  device :: bool
  discovery_info :: bool
  flow_id :: string
  unique_id :: "string option"
  tasks :: "task list"
  resumes :: nat
  subscriptions :: "nat list"
  unsub_calls :: "nat list"
  in_progress :: "(string \<times> string option) list"
  aborted :: "string list"
  calls :: "device_op list"

text \<open>
  What the collaborators answer during one step or one run of a task body:
  \<open>last_service_info\<close> is what \<^verbatim>\<open>async_last_service_info\<close> finds (\<open>None\<close>: no service
  info) together with what \<^verbatim>\<open>ImprovServiceData.from_bytes(service_data[SERVICE_DATA_UUID])\<close>
  makes of it: the advertised state, or the exception that reading it raises. The other
  fields are the results of the operations of \<^verbatim>\<open>ImprovBLEClient\<close>, should the code
  invoke them.
\<close>

record device_env =
  last_service_info :: "(exn + improv_state) option"
  dev_can_identify :: "exn + bool"
  dev_identify :: "exn + unit"
  dev_need_authorization :: "exn + bool"
  dev_subscribe_state_updates :: "exn + unit"
  dev_provision :: "string \<Rightarrow> string \<Rightarrow> exn + string option"

text \<open>The input of the provision form: \<^verbatim>\<open>ssid\<close> is required by the schema.\<close>

record provision_input =
  input_ssid :: string
  input_password :: "string option"

text \<open>
  The flow after the user or bluetooth step has set the unique id and stored the
  discovery info: every other field has its class default.
\<close>

definition discovered :: "string \<Rightarrow> string option \<Rightarrow> (string \<times> string option) list \<Rightarrow> world" where
  "discovered fid uid flows =
     \<lparr>authorize_task = None, can_identify = None, credentials = None,
      provision_result = None, provision_task = None, unsub = None,
      device = False, discovery_info = True, flow_id = fid, unique_id = uid,
      tasks = [], resumes = 0, subscriptions = [], unsub_calls = [],
      in_progress = flows, aborted = [], calls = []\<rparr>"

subsection \<open>Tasks\<close>

definition log_call :: "device_op \<Rightarrow> world \<Rightarrow> world" where
  "log_call op w = w\<lparr>calls := calls w @ [op]\<rparr>"

definition task_status :: "world \<Rightarrow> nat \<Rightarrow> task_status" where
  "task_status w t = (if t < length (tasks w) then status (tasks w ! t) else Pending)"

text \<open>\<^verbatim>\<open>hass.async_create_task\<close>: the new task is pending; its handle is returned.\<close>

definition async_create_task :: "task_kind \<Rightarrow> world \<Rightarrow> nat \<times> world" where
  "async_create_task k w =
     (length (tasks w), w\<lparr>tasks := tasks w @ [\<lparr>kind = k, status = Pending\<rparr>]\<rparr>)"

text \<open>
  \<^verbatim>\<open>_resume_flow_when_done\<close> at the moment the awaitable of task \<open>t\<close> settles with
  status \<open>st\<close>: the \<^verbatim>\<open>finally\<close> clause schedules one \<^verbatim>\<open>async_configure\<close> of the flow,
  whether the awaitable returned or raised, and the task is done.
\<close>

definition resume_flow_when_done :: "nat \<Rightarrow> task_status \<Rightarrow> world \<Rightarrow> world" where
  "resume_flow_when_done t st w =
     w\<lparr>tasks := (tasks w)[t := (tasks w ! t)\<lparr>status := st\<rparr>], resumes := Suc (resumes w)\<rparr>"

subsection \<open>The steps\<close>

definition async_step_main_menu :: "world \<Rightarrow> flow_result outcome \<times> world" where
  "async_step_main_menu w =
     (Return (async_show_menu ''main_menu'' [''identify'', ''provision'']), w)"

definition async_step_authorize :: "device_env \<Rightarrow> world \<Rightarrow> flow_result outcome \<times> world" where
  "async_step_authorize env w =
     (if \<not> device w then (Raise AssertionError, w)
      else case authorize_task w of
        None \<Rightarrow>
          (let w1 = log_call OpSubscribeStateUpdates w in
           case try_call (dev_subscribe_state_updates env) of
             Inl (AbortFlow reason) \<Rightarrow> (Return (async_abort reason None), w1)
           | Inl e \<Rightarrow> (Raise e, w1)
           | Inr _ \<Rightarrow>
               (let h = length (tasks w1);
                    w2 = w1\<lparr>unsub := Some h, subscriptions := subscriptions w1 @ [h]\<rparr>;
                    (t, w3) = async_create_task AuthorizeWait w2
                in (Return (async_show_progress ''authorize'' ''authorize''),
                    w3\<lparr>authorize_task := Some t\<rparr>)))
      | Some t \<Rightarrow>
          (case task_status w t of
             Pending \<Rightarrow> (Await t, w)
           | Failed e \<Rightarrow> (Raise e, w)
           | Finished \<Rightarrow>
               (let w1 = w\<lparr>authorize_task := None\<rparr>;
                    w2 = (case unsub w1 of
                            None \<Rightarrow> w1
                          | Some h \<Rightarrow>
                              w1\<lparr>subscriptions := removeAll h (subscriptions w1),
                                 unsub_calls := unsub_calls w1 @ [h],
                                 unsub := None\<rparr>)
                in (Return (async_show_progress_done ''provision''), w2))))"

text \<open>
  The part of \<^verbatim>\<open>async_step_do_provision\<close> after the nested function: start the task,
  or await the one there is.
\<close>

definition async_step_do_provision :: "world \<Rightarrow> flow_result outcome \<times> world" where
  "async_step_do_provision w =
     (case provision_task w of
        None \<Rightarrow>
          (let (t, w1) = async_create_task ProvisionAttempt w
           in (Return (async_show_progress ''do_provision'' ''provisioning''),
               w1\<lparr>provision_task := Some t\<rparr>))
      | Some t \<Rightarrow>
          (case task_status w t of
             Pending \<Rightarrow> (Await t, w)
           | Failed e \<Rightarrow> (Raise e, w)
           | Finished \<Rightarrow>
               (Return (async_show_progress_done ''provision_done''),
                w\<lparr>provision_task := None\<rparr>)))"

definition async_step_provision ::
  "provision_input option \<Rightarrow> device_env \<Rightarrow> world \<Rightarrow> flow_result outcome \<times> world" where
  "async_step_provision user_input env w =
     (if \<not> device w then (Raise AssertionError, w)
      else if user_input = None \<and> credentials w = None then
        (Return (async_show_form ''provision'' (Some STEP_PROVISION_SCHEMA) None), w)
      else
        (let w1 = (case user_input of
                     None \<Rightarrow> w
                   | Some ui \<Rightarrow>
                       w\<lparr>credentials :=
                           Some \<lparr>password = (case input_password ui of None \<Rightarrow> [] | Some p \<Rightarrow> p),
                                 ssid = input_ssid ui\<rparr>\<rparr>);
             w2 = log_call OpNeedAuthorization w1
         in case try_call (dev_need_authorization env) of
              Inl (AbortFlow reason) \<Rightarrow> (Return (async_abort reason None), w2)
            | Inl e \<Rightarrow> (Raise e, w2)
            | Inr need_authorization \<Rightarrow>
                if need_authorization then async_step_authorize env w2
                else async_step_do_provision w2))"

definition async_step_start_improv :: "device_env \<Rightarrow> world \<Rightarrow> flow_result outcome \<times> world" where
  "async_step_start_improv env w =
     (if \<not> discovery_info w then (Raise AssertionError, w)
      else case last_service_info env of
        None \<Rightarrow> (Return (async_abort ''cannot_connect'' None), w\<lparr>discovery_info := False\<rparr>)
      | Some (Inl e) \<Rightarrow> (Raise e, w)
      | Some (Inr st) \<Rightarrow>
          if st = PROVISIONING \<or> st = PROVISIONED then
            (Return (async_abort ''already_provisioned'' None), w)
          else
            (let w1 = w\<lparr>device := True\<rparr> in
             case can_identify w1 of
               None \<Rightarrow>
                 (let w2 = log_call OpCanIdentify w1 in
                  case try_call (dev_can_identify env) of
                    Inl (AbortFlow reason) \<Rightarrow> (Return (async_abort reason None), w2)
                  | Inl e \<Rightarrow> (Raise e, w2)
                  | Inr b \<Rightarrow>
                      (let w3 = w2\<lparr>can_identify := Some b\<rparr> in
                       if b then async_step_main_menu w3
                       else async_step_provision None env w3))
             | Some b \<Rightarrow>
                 if b then async_step_main_menu w1
                 else async_step_provision None env w1))"

definition async_step_bluetooth_confirm ::
  "unit option \<Rightarrow> device_env \<Rightarrow> world \<Rightarrow> flow_result outcome \<times> world" where
  "async_step_bluetooth_confirm user_input env w =
     (if \<not> discovery_info w then (Raise AssertionError, w)
      else if user_input = None then
        (Return (async_show_form ''bluetooth_confirm'' None None), w)
      else async_step_start_improv env w)"

definition async_step_identify ::
  "unit option \<Rightarrow> device_env \<Rightarrow> world \<Rightarrow> flow_result outcome \<times> world" where
  "async_step_identify user_input env w =
     (if \<not> device w then (Raise AssertionError, w)
      else if user_input = None then
        (let w1 = log_call OpIdentify w in
         case try_call (dev_identify env) of
           Inl (AbortFlow reason) \<Rightarrow> (Return (async_abort reason None), w1)
         | Inl e \<Rightarrow> (Raise e, w1)
         | Inr _ \<Rightarrow> (Return (async_show_form ''identify'' None None), w1))
      else async_step_start_improv env w)"

definition async_step_provision_done :: "world \<Rightarrow> flow_result outcome \<times> world" where
  "async_step_provision_done w =
     (case provision_result w of
        None \<Rightarrow> (Raise AssertionError, w)
      | Some result \<Rightarrow> (Return result, w\<lparr>provision_result := None\<rparr>))"

subsection \<open>The provisioning task\<close>

text \<open>
  Modelled from the spec: the flow registry (\<open>list_in_progress()\<close>, \<open>abort(id)\<close>), which
  the source reaches through \<^verbatim>\<open>_async_in_progress\<close> and
  \<^verbatim>\<open>hass.config_entries.flow.async_abort\<close>. Aborting a flow cancels it: it is no longer in
  progress. The class defines no \<^verbatim>\<open>async_remove\<close> and no other method that the flow
  manager could run on removal, so no field of the flow changes.
\<close>

definition flow_manager_async_abort :: "string \<Rightarrow> world \<Rightarrow> world" where
  "flow_manager_async_abort fid w =
     w\<lparr>in_progress := filter (\<lambda>flow. fst flow \<noteq> fid) (in_progress w),
       aborted := aborted w @ [fid]\<rparr>"

text \<open>The loop of \<^verbatim>\<open>_do_provision\<close> over the flows in progress (a list made before the loop).\<close>

definition abort_flows_with_same_unique_id :: "world \<Rightarrow> world" where
  "abort_flows_with_same_unique_id w =
     fold (\<lambda>flow w'.
             if fst flow \<noteq> flow_id w' \<and> unique_id w' = snd flow
             then flow_manager_async_abort (fst flow) w' else w')
          (in_progress w) w"

text \<open>
  \<^verbatim>\<open>_do_provision\<close>, the body of the provisioning task, taken at the moment the call of
  \<^verbatim>\<open>provision\<close> settles. The body is suspended (\<open>Await\<close>) when the authorize step it
  enters awaits a pending task.
\<close>

definition do_provision :: "device_env \<Rightarrow> world \<Rightarrow> unit outcome \<times> world" where
  "do_provision env w =
     (case credentials w of
        None \<Rightarrow> (Raise AssertionError, w)
      | Some c \<Rightarrow>
          if \<not> device w then (Raise AssertionError, w)
          else
            (let w1 = log_call (OpProvision (ssid c) (password c)) w in
             case try_call (dev_provision env (ssid c) (password c)) of
               Inl (AbortFlow reason) \<Rightarrow>
                 (Return (), w1\<lparr>provision_result := Some (async_abort reason None)\<rparr>)
             | Inl (ProvisioningFailed err) \<Rightarrow>
                 if err = NOT_AUTHORIZED then
                   (case async_step_authorize env w1 of
                      (Return r, w2) \<Rightarrow> (Return (), w2\<lparr>provision_result := Some r\<rparr>)
                    | (Raise e, w2) \<Rightarrow> (Raise e, w2)
                    | (Await t, w2) \<Rightarrow> (Await t, w2))
                 else if err = UNABLE_TO_CONNECT then
                   (Return (),
                    w1\<lparr>credentials := None,
                       provision_result :=
                         Some (async_show_form ''provision'' (Some STEP_PROVISION_SCHEMA)
                                 (Some [(''base'', ''unable_to_connect'')]))\<rparr>)
                 else
                   (Return (), w1\<lparr>provision_result := Some (async_abort ''unknown'' None)\<rparr>)
             | Inl e \<Rightarrow> (Raise e, w1)
             | Inr redirect_url \<Rightarrow>
                 (let w2 = abort_flows_with_same_unique_id w1 in
                  case redirect_url of
                    None \<Rightarrow>
                      (Return (),
                       w2\<lparr>provision_result := Some (async_abort ''provision_successful'' None)\<rparr>)
                  | Some url \<Rightarrow>
                      if url \<noteq> [] then
                        (Return (),
                         w2\<lparr>provision_result :=
                              Some (async_abort ''provision_successful_url''
                                      (Some [(''url'', url)]))\<rparr>)
                      else
                        (Return (),
                         w2\<lparr>provision_result :=
                              Some (async_abort ''provision_successful'' None)\<rparr>))))"

text \<open>
  The event loop runs provisioning task \<open>t\<close> to its end: \<^verbatim>\<open>_resume_flow_when_done\<close>
  awaits the body and schedules the resumption. A body that is suspended has not ended,
  and nothing has happened to the flow yet.
\<close>

definition provision_task_runs :: "nat \<Rightarrow> device_env \<Rightarrow> world \<Rightarrow> world" where
  "provision_task_runs t env w =
     (if t < length (tasks w) \<and> kind (tasks w ! t) = ProvisionAttempt
         \<and> status (tasks w ! t) = Pending
      then (case do_provision env w of
              (Return _, w') \<Rightarrow> resume_flow_when_done t Finished w'
            | (Raise e, w') \<Rightarrow> resume_flow_when_done t (Failed e) w'
            | (Await _, _) \<Rightarrow> w)
      else w)"

subsection \<open>Notifications of the device\<close>

text \<open>
  \<^verbatim>\<open>authorized_event.set()\<close> for the event that task \<open>h\<close> waits for: the wait returns,
  once, and \<^verbatim>\<open>_resume_flow_when_done\<close> schedules the resumption. Setting an event that is
  set already does nothing.
\<close>

definition authorized_event_set :: "nat \<Rightarrow> world \<Rightarrow> world" where
  "authorized_event_set h w =
     (if h < length (tasks w) \<and> status (tasks w ! h) = Pending
      then resume_flow_when_done h Finished w else w)"

text \<open>The callback \<^verbatim>\<open>on_state_update\<close> of registration \<open>h\<close>.\<close>

definition on_state_update :: "nat \<Rightarrow> improv_state \<Rightarrow> world \<Rightarrow> world" where
  "on_state_update h state w =
     (if state \<noteq> AUTHORIZATION_REQUIRED then authorized_event_set h w else w)"

text \<open>The device reports a state: the session calls every callback it holds.\<close>

definition state_update :: "improv_state \<Rightarrow> world \<Rightarrow> world" where
  "state_update state w = fold (\<lambda>h. on_state_update h state) (subscriptions w) w"

subsection \<open>Runs of a flow\<close>

datatype step_call =
    BluetoothConfirm "unit option"
  | StartImprov
  | MainMenu
  | Identify "unit option"
  | Provision "provision_input option"
  | DoProvision
  | ProvisionDone
  | Authorize

fun step :: "step_call \<Rightarrow> device_env \<Rightarrow> world \<Rightarrow> flow_result outcome \<times> world" where
  "step (BluetoothConfirm user_input) env w = async_step_bluetooth_confirm user_input env w"
| "step StartImprov env w = async_step_start_improv env w"
| "step MainMenu env w = async_step_main_menu w"
| "step (Identify user_input) env w = async_step_identify user_input env w"
| "step (Provision user_input) env w = async_step_provision user_input env w"
| "step DoProvision env w = async_step_do_provision w"
| "step ProvisionDone env w = async_step_provision_done w"
| "step Authorize env w = async_step_authorize env w"

text \<open>
  What can happen to a flow: a step is invoked (by the interactive surface or by a
  scheduled resumption), a provisioning task runs to its end, the device reports a
  state, the flow manager aborts the flow.
\<close>

datatype event =
    Step step_call device_env
  | TaskRuns nat device_env
  | Notification improv_state
  | FlowAborted

fun exec :: "event \<Rightarrow> world \<Rightarrow> world" where
  "exec (Step c env) w = snd (step c env w)"
| "exec (TaskRuns t env) w = provision_task_runs t env w"
| "exec (Notification state) w = state_update state w"
| "exec FlowAborted w = flow_manager_async_abort (flow_id w) w"

definition run :: "event list \<Rightarrow> world \<Rightarrow> world" where
  "run evs w = fold exec evs w"

subsection \<open>Measures and invariants\<close>

text \<open>The tasks of a kind that are in flight, and the tasks that have ended.\<close>

definition in_flight :: "task_kind \<Rightarrow> world \<Rightarrow> nat" where
  "in_flight k w = length (filter (\<lambda>t. kind t = k \<and> status t = Pending) (tasks w))"

definition completed :: "world \<Rightarrow> nat" where
  "completed w = length (filter (\<lambda>t. status t \<noteq> Pending) (tasks w))"

text \<open>A device that needs authorization, a form input and a flow with two siblings.\<close>

definition example_env :: device_env where
  "example_env =
     \<lparr>last_service_info = Some (Inr AUTHORIZED), dev_can_identify = Inr False,
      dev_identify = Inr (), dev_need_authorization = Inr True,
      dev_subscribe_state_updates = Inr (),
      dev_provision = (\<lambda>ssid password. Inr (Some ''http://x/y''))\<rparr>"

definition example_input :: provision_input where
  "example_input = \<lparr>input_ssid = ''net'', input_password = Some ''secret''\<rparr>"

definition example_flow :: world where
  "example_flow =
     discovered ''f1'' (Some ''AA'') [(''f1'', Some ''AA''), (''f2'', Some ''AA''), (''f3'', Some ''BB'')]"

text \<open>The same device when it needs no authorization.\<close>

definition example_open_env :: device_env where
  "example_open_env = example_env\<lparr>dev_need_authorization := Inr False\<rparr>"

text \<open>Devices whose provisioning fails.\<close>

definition example_failing_env :: "improv_error \<Rightarrow> device_env" where
  "example_failing_env err =
     example_open_env\<lparr>dev_provision := (\<lambda>ssid password. Inl (ProvisioningFailed err))\<rparr>"

text \<open>The example flow with the provision form on display, the device session made.\<close>

definition example_confirmed :: world where
  "example_confirmed = run [Step StartImprov example_env] example_flow"

text \<open>The example flow with credentials entered and the provisioning task pending.\<close>

definition example_provisioning :: world where
  "example_provisioning =
     run [Step (Provision (Some example_input)) example_open_env] example_confirmed"

text \<open>The example flow with an authorization wait and a provisioning attempt pending.\<close>

definition example_both_pending :: world where
  "example_both_pending =
     run [Step StartImprov example_env, Step (Provision (Some example_input)) example_env,
          Step DoProvision example_env]
       example_flow"

text \<open>
  What holds of the flow after any sequence of events: each handle names a task of its
  kind; a pending task is the one the flow holds the handle of; the registration the
  session holds is that of the pending authorization wait (\<open>unsub\<close> and the handle go
  together); no registration was released twice; the resumptions scheduled are as many as
  the tasks that ended.
\<close>

definition wf :: "world \<Rightarrow> bool" where
  "wf w \<longleftrightarrow>
     (case provision_task w of
        None \<Rightarrow> True
      | Some t \<Rightarrow> t < length (tasks w) \<and> kind (tasks w ! t) = ProvisionAttempt) \<and>
     (case authorize_task w of
        None \<Rightarrow> subscriptions w = []
      | Some t \<Rightarrow> t < length (tasks w) \<and> kind (tasks w ! t) = AuthorizeWait \<and> device w
                   \<and> subscriptions w = [t] \<and> t \<notin> set (unsub_calls w)) \<and>
     (\<forall>t < length (tasks w). status (tasks w ! t) = Pending \<longrightarrow>
        kind (tasks w ! t) = ProvisionAttempt \<longrightarrow> provision_task w = Some t) \<and>
     (\<forall>t < length (tasks w). status (tasks w ! t) = Pending \<longrightarrow>
        kind (tasks w ! t) = AuthorizeWait \<longrightarrow> authorize_task w = Some t) \<and>
     unsub w = authorize_task w \<and>
     distinct (unsub_calls w) \<and>
     (\<forall>h \<in> set (unsub_calls w). h < length (tasks w)) \<and>
     resumes w = length (filter (\<lambda>t. status t \<noteq> Pending) (tasks w))"

text \<open>How often \<^verbatim>\<open>can_identify\<close> was invoked on the device session.\<close>

definition can_identify_queries :: "world \<Rightarrow> nat" where
  "can_identify_queries w = length (filter (\<lambda>op. op = OpCanIdentify) (calls w))"

text \<open>Two states with the same cached capability and as many queries.\<close>

definition same_probe :: "world \<Rightarrow> world \<Rightarrow> bool" where
  "same_probe w w' \<longleftrightarrow>
     can_identify w' = can_identify w \<and> can_identify_queries w' = can_identify_queries w"

text \<open>A device whose capability query raises a command failure.\<close>

definition example_probe_failed_env :: device_env where
  "example_probe_failed_env = example_env\<lparr>dev_can_identify := Inl CommandFailed\<rparr>"

text \<open>A device that supports identification.\<close>

definition example_identify_env :: device_env where
  "example_identify_env = example_env\<lparr>dev_can_identify := Inr True\<rparr>"

text \<open>How often a run takes the credentials away: the events before which the flow holds
  credentials and after which it holds none.\<close>

fun credential_clears :: "event list \<Rightarrow> world \<Rightarrow> nat" where
  "credential_clears [] w = 0"
| "credential_clears (e # es) w =
     (if credentials w \<noteq> None \<and> credentials (exec e w) = None then 1 else 0)
     + credential_clears es (exec e w)"

text \<open>Provisioning fails to connect, the form is shown and submitted again, and
  provisioning fails to connect again.\<close>

definition example_retry_events :: "event list" where
  "example_retry_events =
     [TaskRuns 0 (example_failing_env UNABLE_TO_CONNECT),
      Step DoProvision example_env,
      Step ProvisionDone example_env,
      Step (Provision (Some example_input)) example_open_env,
      TaskRuns 1 (example_failing_env UNABLE_TO_CONNECT)]"

text \<open>The flow holds credentials.\<close>

definition holds_credentials :: "world \<Rightarrow> bool" where
  "holds_credentials w \<longleftrightarrow> credentials w \<noteq> None"

text \<open>The example flow in the authorization wait, and after the device has reported that
  it is authorized.\<close>

definition example_waiting :: world where
  "example_waiting =
     run [Step StartImprov example_env, Step (Provision (Some example_input)) example_env]
       example_flow"

definition example_authorized :: world where
  "example_authorized =
     run [Step StartImprov example_env, Step (Provision (Some example_input)) example_env,
          Notification AUTHORIZED]
       example_flow"

text \<open>A call result that is a command failure: \<open>CommandFailed\<close> or its subclass.\<close>

definition command_failure :: "exn + 'a \<Rightarrow> bool" where
  "command_failure r =
     (case r of
        Inl CommandFailed \<Rightarrow> True
      | Inl (ProvisioningFailed err) \<Rightarrow> True
      | _ \<Rightarrow> False)"

text \<open>
  A device whose operations raise no command failure, but for \<^verbatim>\<open>provision\<close>, which may
  raise \<open>ProvisioningFailed\<close>.
\<close>

definition no_command_failures :: "device_env \<Rightarrow> bool" where
  "no_command_failures env \<longleftrightarrow>
     \<not> command_failure (dev_can_identify env)
     \<and> \<not> command_failure (dev_identify env)
     \<and> \<not> command_failure (dev_need_authorization env)
     \<and> \<not> command_failure (dev_subscribe_state_updates env)
     \<and> (\<forall>ssid password. dev_provision env ssid password \<noteq> Inl CommandFailed)"

text \<open>Reading the advertised service data raises nothing.\<close>

definition advertisement_parses :: "device_env \<Rightarrow> bool" where
  "advertisement_parses env =
     (case last_service_info env of
        Some (Inl e) \<Rightarrow> False
      | _ \<Rightarrow> True)"

definition benign_event :: "event \<Rightarrow> bool" where
  "benign_event e =
     (case e of
        Step c env \<Rightarrow> no_command_failures env \<and> advertisement_parses env
      | TaskRuns t env \<Rightarrow> no_command_failures env
      | _ \<Rightarrow> True)"

text \<open>No task has failed with anything but an assertion.\<close>

definition failure_free :: "task list \<Rightarrow> bool" where
  "failure_free ts \<longleftrightarrow> (\<forall>t \<in> set ts. \<forall>e. status t = Failed e \<longrightarrow> e = AssertionError)"

text \<open>The example device when \<^verbatim>\<open>need_authorization\<close> raises a command failure.\<close>

definition example_command_failed_env :: device_env where
  "example_command_failed_env = example_env\<lparr>dev_need_authorization := Inl CommandFailed\<rparr>"

text \<open>The example device when the link is lost during \<^verbatim>\<open>need_authorization\<close>.\<close>

definition example_link_lost_env :: device_env where
  "example_link_lost_env = example_env\<lparr>dev_need_authorization := Inl BleakError\<rparr>"

section \<open>Properties\<close>

subsection \<open>Lists\<close>


lemma filter_update_count:
  "t < length xs \<Longrightarrow> \<not> P (xs ! t) \<Longrightarrow> P y \<Longrightarrow>
   length (filter P (xs[t := y])) = Suc (length (filter P xs))"
proof (induction xs arbitrary: t)
  case Nil
  then show ?case by simp
next
  case (Cons x xs)
  then show ?case by (cases t) auto
qed

lemma filter_at_most_one:
  "(\<And>i j. i < length xs \<Longrightarrow> j < length xs \<Longrightarrow> P (xs ! i) \<Longrightarrow> P (xs ! j) \<Longrightarrow> i = j) \<Longrightarrow>
   length (filter P xs) \<le> Suc 0"
proof (induction xs)
  case Nil
  then show ?case by simp
next
  case (Cons x xs)
  show ?case
  proof (cases "P x")
    case True
    have "filter P xs = []"
    proof (rule ccontr)
      assume "filter P xs \<noteq> []"
      then obtain y where "y \<in> set xs" "P y"
        by (metis filter_False)
      then obtain j where "j < length xs" "xs ! j = y"
        by (auto simp: in_set_conv_nth)
      with Cons.prems [of 0 "Suc j"] True \<open>P y\<close> show False by simp
    qed
    with True show ?thesis by simp
  next
    case False
    have "length (filter P xs) \<le> Suc 0"
    proof (rule Cons.IH)
      fix i j
      assume "i < length xs" "j < length xs" "P (xs ! i)" "P (xs ! j)"
      with Cons.prems [of "Suc i" "Suc j"] show "i = j" by simp
    qed
    with False show ?thesis by simp
  qed
qed

subsection \<open>The invariant of a flow\<close>

lemma wf_discovered: "wf (discovered fid uid flows)"
  by (simp add: wf_def discovered_def)

lemma wf_irrelevant [simp]:
  "wf (log_call op w) = wf w"
  "wf (w\<lparr>credentials := c\<rparr>) = wf w"
  "wf (w\<lparr>can_identify := b\<rparr>) = wf w"
  "wf (w\<lparr>discovery_info := d\<rparr>) = wf w"
  "wf (w\<lparr>provision_result := r\<rparr>) = wf w"
  "wf (w\<lparr>in_progress := fs\<rparr>) = wf w"
  "wf (w\<lparr>aborted := a\<rparr>) = wf w"
  by (simp_all add: wf_def log_call_def cong: option.case_cong)


lemma wf_device: "wf w \<Longrightarrow> wf (w\<lparr>device := True\<rparr>)"
  by (simp add: wf_def split: option.splits)

lemma wf_complete:
  assumes "wf w" "t < length (tasks w)" "status (tasks w ! t) = Pending" "st \<noteq> Pending"
  shows "wf (resume_flow_when_done t st w)"
proof -
  let ?y = "(tasks w ! t)\<lparr>status := st\<rparr>"
  have cnt: "length (filter (\<lambda>t. status t \<noteq> Pending) ((tasks w)[t := ?y]))
      = Suc (length (filter (\<lambda>t. status t \<noteq> Pending) (tasks w)))"
    using assms(2-4) by (intro filter_update_count) simp_all
  from assms show ?thesis
    by (auto simp: wf_def resume_flow_when_done_def nth_list_update cnt split: option.splits)
qed


lemma task_status_done:
  "task_status w t \<noteq> Pending \<Longrightarrow> t < length (tasks w) \<and> status (tasks w ! t) = task_status w t"
  by (simp add: task_status_def split: if_splits)

lemma wf_clear_provision:
  "wf w \<Longrightarrow> provision_task w = Some t \<Longrightarrow> status (tasks w ! t) \<noteq> Pending \<Longrightarrow>
   wf (w\<lparr>provision_task := None\<rparr>)"
  by (auto simp: wf_def split: option.splits)

lemma wf_create_provision:
  "wf w \<Longrightarrow> provision_task w = None \<Longrightarrow>
   wf (w\<lparr>tasks := tasks w @ [\<lparr>kind = ProvisionAttempt, status = Pending\<rparr>],
         provision_task := Some (length (tasks w))\<rparr>)"
  by (auto simp: wf_def nth_append split: option.splits)


lemma wf_clear_authorize:
  "wf w \<Longrightarrow> authorize_task w = Some t \<Longrightarrow> status (tasks w ! t) \<noteq> Pending \<Longrightarrow>
   wf (w\<lparr>authorize_task := None, subscriptions := removeAll t (subscriptions w),
         unsub_calls := unsub_calls w @ [t], unsub := None\<rparr>)"
  by (auto simp: wf_def split: option.splits)

lemma wf_create_authorize:
  "wf w \<Longrightarrow> authorize_task w = None \<Longrightarrow> device w \<Longrightarrow>
   wf (w\<lparr>unsub := Some (length (tasks w)),
         subscriptions := subscriptions w @ [length (tasks w)],
         tasks := tasks w @ [\<lparr>kind = AuthorizeWait, status = Pending\<rparr>],
         authorize_task := Some (length (tasks w))\<rparr>)"
  by (auto simp: wf_def nth_append split: option.splits)

lemma wf_do_provision_step:
  assumes "wf w"
  shows "wf (snd (async_step_do_provision w))"
proof (cases "provision_task w")
  case None
  then have "snd (async_step_do_provision w) =
      w\<lparr>tasks := tasks w @ [\<lparr>kind = ProvisionAttempt, status = Pending\<rparr>],
        provision_task := Some (length (tasks w))\<rparr>"
    by (simp add: async_step_do_provision_def async_create_task_def)
  with wf_create_provision [OF assms None] show ?thesis by simp
next
  case (Some t)
  show ?thesis
  proof (cases "task_status w t")
    case Pending
    with Some assms show ?thesis by (simp add: async_step_do_provision_def)
  next
    case (Failed e)
    with Some assms show ?thesis by (simp add: async_step_do_provision_def)
  next
    case Finished
    with Some have "snd (async_step_do_provision w) = w\<lparr>provision_task := None\<rparr>"
      by (simp add: async_step_do_provision_def)
    moreover from Finished have "status (tasks w ! t) \<noteq> Pending"
      using task_status_done [of w t] by simp
    ultimately show ?thesis using wf_clear_provision [OF assms Some] by simp
  qed
qed



text \<open>What a failed call leaves: the caller returns an abort or raises, in the same state.\<close>

lemma snd_abort_or_raise [simp]:
  "snd (case_exn (a, w) (b, w) (c, w) (\<lambda>err. (d err, w)) (o', w) (\<lambda>reason. (f reason, w)) (g, w)
          (k, w) (i, w) e) = w"
  by (cases e) simp_all

lemma authorize_subscribed:
  assumes "device w" "authorize_task w = None" "try_call (dev_subscribe_state_updates env) = Inr u"
  shows "async_step_authorize env w =
     (Return (async_show_progress ''authorize'' ''authorize''),
      (log_call OpSubscribeStateUpdates w)
        \<lparr>unsub := Some (length (tasks w)),
         subscriptions := subscriptions w @ [length (tasks w)],
         tasks := tasks w @ [\<lparr>kind = AuthorizeWait, status = Pending\<rparr>],
         authorize_task := Some (length (tasks w))\<rparr>)"
  using assms by (simp add: async_step_authorize_def async_create_task_def log_call_def Let_def)

lemma authorize_not_subscribed:
  assumes "device w" "authorize_task w = None" "try_call (dev_subscribe_state_updates env) = Inl e"
  shows "snd (async_step_authorize env w) = log_call OpSubscribeStateUpdates w"
  using assms by (cases e) (simp_all add: async_step_authorize_def)

lemma authorize_finished:
  assumes "device w" "authorize_task w = Some t" "task_status w t = Finished" "unsub w = Some t"
  shows "async_step_authorize env w =
     (Return (async_show_progress_done ''provision''),
      w\<lparr>authorize_task := None, subscriptions := removeAll t (subscriptions w),
        unsub_calls := unsub_calls w @ [t], unsub := None\<rparr>)"
  using assms by (simp add: async_step_authorize_def)

lemma wf_unsub: "wf w \<Longrightarrow> unsub w = authorize_task w"
  by (simp add: wf_def)

lemma wf_authorize:
  assumes "wf w"
  shows "wf (snd (async_step_authorize env w))"
proof (cases "device w")
  case False
  with assms show ?thesis by (simp add: async_step_authorize_def)
next
  case dev: True
  show ?thesis
  proof (cases "authorize_task w")
    case None
    show ?thesis
    proof (cases "try_call (dev_subscribe_state_updates env)")
      case (Inl e)
      with assms authorize_not_subscribed [OF dev None Inl] show ?thesis by simp
    next
      case (Inr u)
      have "wf (log_call OpSubscribeStateUpdates w)" using assms by simp
      from wf_create_authorize [OF this] dev None
      show ?thesis by (simp add: authorize_subscribed [OF dev None Inr] log_call_def)
    qed
  next
    case (Some t)
    show ?thesis
    proof (cases "task_status w t")
      case Pending
      with dev Some assms show ?thesis by (simp add: async_step_authorize_def)
    next
      case (Failed e)
      with dev Some assms show ?thesis by (simp add: async_step_authorize_def)
    next
      case Finished
      from Finished have "status (tasks w ! t) \<noteq> Pending"
        using task_status_done [of w t] by simp
      from wf_clear_authorize [OF assms Some this] wf_unsub [OF assms] Some
      show ?thesis by (simp add: authorize_finished [OF dev Some Finished])
    qed
  qed
qed

lemma wf_provision:
  assumes "wf w"
  shows "wf (snd (async_step_provision user_input env w))"
proof -
  have *: "wf (snd (async_step_authorize env w'))" "wf (snd (async_step_do_provision w'))"
    if "wf w'" for w'
    using that by (rule wf_authorize, rule wf_do_provision_step)
  show ?thesis
    using assms
    by (cases "try_call (dev_need_authorization env)")
       (auto simp: async_step_provision_def Let_def * split: option.splits)
qed

lemma wf_start_improv:
  assumes "wf w"
  shows "wf (snd (async_step_start_improv env w))"
proof -
  have *: "wf (snd (async_step_provision None env w'))" if "wf w'" for w'
    using that by (rule wf_provision)
  show ?thesis
    using assms
    by (cases "try_call (dev_can_identify env)")
       (auto simp: async_step_start_improv_def async_step_main_menu_def Let_def * wf_device
          split: option.splits sum.splits)
qed

lemma wf_step:
  assumes "wf w"
  shows "wf (snd (step c env w))"
proof (cases c)
  case (Identify user_input)
  with assms show ?thesis
    by (cases "try_call (dev_identify env)")
       (auto simp: async_step_identify_def wf_start_improv Let_def)
next
  case ProvisionDone
  with assms show ?thesis
    by (simp add: async_step_provision_done_def split: option.splits)
qed (use assms in \<open>simp_all add: wf_start_improv wf_provision wf_authorize
      wf_do_provision_step async_step_main_menu_def async_step_bluetooth_confirm_def\<close>)




lemma fold_abort_shape:
  "\<exists>X Y. fold (\<lambda>flow w'.
             if fst flow \<noteq> flow_id w' \<and> unique_id w' = snd flow
             then flow_manager_async_abort (fst flow) w' else w') fs
            (w\<lparr>in_progress := X0, aborted := Y0\<rparr>) = w\<lparr>in_progress := X, aborted := Y\<rparr>"
proof (induction fs arbitrary: X0 Y0)
  case Nil
  show ?case by auto
next
  case (Cons f fs)
  show ?case using Cons.IH by (simp add: flow_manager_async_abort_def)
qed

lemma abort_flows_shape:
  "\<exists>X Y. abort_flows_with_same_unique_id w = w\<lparr>in_progress := X, aborted := Y\<rparr>"
  using fold_abort_shape [where fs = "in_progress w" and w = w and ?X0.0 = "in_progress w" and ?Y0.0 = "aborted w"]
  by (simp add: abort_flows_with_same_unique_id_def)

lemma wf_abort_flows [simp]: "wf (abort_flows_with_same_unique_id w) = wf w"
proof -
  obtain X Y where "abort_flows_with_same_unique_id w = w\<lparr>in_progress := X, aborted := Y\<rparr>"
    using abort_flows_shape by blast
  then show ?thesis by simp
qed

lemma tasks_abort_flows [simp]: "tasks (abort_flows_with_same_unique_id w) = tasks w"
proof -
  obtain X Y where "abort_flows_with_same_unique_id w = w\<lparr>in_progress := X, aborted := Y\<rparr>"
    using abort_flows_shape by blast
  then show ?thesis by simp
qed

lemma tasks_authorize:
  "\<exists>ys. tasks (snd (async_step_authorize env w)) = tasks w @ ys"
  by (cases "try_call (dev_subscribe_state_updates env)")
     (auto simp: async_step_authorize_def async_create_task_def log_call_def Let_def
        split: option.splits task_status.splits)

lemma wf_do_provision:
  assumes "wf w"
  shows "wf (snd (do_provision env w))"
proof (cases "credentials w")
  case None
  with assms show ?thesis by (simp add: do_provision_def)
next
  case (Some c)
  have *: "wf (snd (async_step_authorize env w'))" if "wf w'" for w'
    using that by (rule wf_authorize)
  have **: "wf (snd p) \<Longrightarrow>
      wf (snd (case p of (Return r, w2) \<Rightarrow> (Return (), w2\<lparr>provision_result := Some r\<rparr>)
                       | (Raise e, w2) \<Rightarrow> (Raise e, w2)
                       | (Await t, w2) \<Rightarrow> (Await t, w2)))" for p :: "flow_result outcome \<times> world"
    by (cases p) (auto split: outcome.splits)
  show ?thesis
  proof (cases "try_call (dev_provision env (ssid c) (password c))")
    case (Inl e)
    with assms Some show ?thesis
      by (cases e) (auto simp: do_provision_def Let_def * ** )
  next
    case (Inr url)
    with assms Some show ?thesis
      by (auto simp: do_provision_def Let_def split: option.splits)
  qed
qed

lemma tasks_do_provision:
  "\<exists>ys. tasks (snd (do_provision env w)) = tasks w @ ys"
proof (cases "credentials w")
  case None
  then show ?thesis by (simp add: do_provision_def)
next
  case (Some c)
  have **: "\<exists>ys. tasks (snd p) = tasks w0 @ ys \<Longrightarrow>
      \<exists>ys. tasks (snd (case p of (Return r, w2) \<Rightarrow> (Return (), w2\<lparr>provision_result := Some r\<rparr>)
                       | (Raise e, w2) \<Rightarrow> (Raise e, w2)
                       | (Await t, w2) \<Rightarrow> (Await t, w2))) = tasks w0 @ ys"
    for p :: "flow_result outcome \<times> world" and w0
    by (cases p) (auto split: outcome.splits)
  have ***: "\<exists>ys. tasks (snd (async_step_authorize env (log_call op w))) = tasks w @ ys" for op
    using tasks_authorize [of env "log_call op w"] by (simp add: log_call_def)
  show ?thesis
  proof (cases "try_call (dev_provision env (ssid c) (password c))")
    case (Inl e)
    with Some show ?thesis
      by (cases e) (auto simp: do_provision_def Let_def log_call_def intro!: ** *** [unfolded log_call_def])
  next
    case (Inr url)
    with Some show ?thesis
      by (auto simp: do_provision_def Let_def log_call_def split: option.splits)
  qed
qed

lemma wf_provision_task_runs:
  assumes "wf w"
  shows "wf (provision_task_runs t env w)"
proof (cases "t < length (tasks w) \<and> kind (tasks w ! t) = ProvisionAttempt
         \<and> status (tasks w ! t) = Pending")
  case False
  with assms show ?thesis by (auto simp: provision_task_runs_def)
next
  case True
  obtain r w' where body: "do_provision env w = (r, w')" by (cases "do_provision env w")
  have wf': "wf w'" using wf_do_provision [OF assms, of env] body by simp
  obtain ys where "tasks w' = tasks w @ ys"
    using tasks_do_provision [of env w] body by auto
  with True have t: "t < length (tasks w')" "status (tasks w' ! t) = Pending"
    by (simp_all add: nth_append)
  show ?thesis
  proof (cases r)
    case (Return u)
    with True body wf_complete [OF wf' t, of Finished] show ?thesis
      by (simp add: provision_task_runs_def)
  next
    case (Raise e)
    with True body wf_complete [OF wf' t, of "Failed e"] show ?thesis
      by (simp add: provision_task_runs_def)
  next
    case (Await h)
    with True body assms show ?thesis
      by (simp add: provision_task_runs_def)
  qed
qed

lemma wf_subscriptions:
  "wf w \<Longrightarrow> subscriptions w = (case authorize_task w of None \<Rightarrow> [] | Some t \<Rightarrow> [t])"
  by (simp add: wf_def split: option.splits)

lemma wf_state_update:
  assumes "wf w"
  shows "wf (state_update state w)"
proof (cases "authorize_task w")
  case None
  with wf_subscriptions [OF assms] assms show ?thesis by (simp add: state_update_def)
next
  case (Some t)
  with wf_subscriptions [OF assms] have "state_update state w = on_state_update t state w"
    by (simp add: state_update_def)
  with assms wf_complete [OF assms, of t Finished] show ?thesis
    by (simp add: on_state_update_def authorized_event_set_def)
qed

lemma wf_exec: "wf w \<Longrightarrow> wf (exec e w)"
  by (cases e)
     (simp_all add: wf_step wf_provision_task_runs wf_state_update flow_manager_async_abort_def)

lemma wf_run: "wf w \<Longrightarrow> wf (run evs w)"
  unfolding run_def by (induction evs arbitrary: w) (simp_all add: wf_exec)

lemmas flow_defs =
  run_def discovered_def example_env_def example_input_def example_flow_def
  example_open_env_def example_failing_env_def example_confirmed_def example_provisioning_def
  async_step_authorize_def async_step_do_provision_def async_step_provision_def
  async_step_start_improv_def async_step_main_menu_def async_step_identify_def
  async_step_bluetooth_confirm_def async_step_provision_done_def
  do_provision_def provision_task_runs_def state_update_def on_state_update_def
  authorized_event_set_def resume_flow_when_done_def async_create_task_def
  task_status_def log_call_def flow_manager_async_abort_def
  abort_flows_with_same_unique_id_def Let_def

lemma wf_pending_provision:
  "wf w \<Longrightarrow> t < length (tasks w) \<Longrightarrow> status (tasks w ! t) = Pending \<Longrightarrow>
   kind (tasks w ! t) = ProvisionAttempt \<Longrightarrow> provision_task w = Some t"
  by (simp add: wf_def)

lemma wf_pending_authorize:
  "wf w \<Longrightarrow> t < length (tasks w) \<Longrightarrow> status (tasks w ! t) = Pending \<Longrightarrow>
   kind (tasks w ! t) = AuthorizeWait \<Longrightarrow> authorize_task w = Some t"
  by (simp add: wf_def)

lemma wf_in_flight:
  assumes "wf w"
  shows "in_flight k w \<le> Suc 0"
  unfolding in_flight_def
proof (rule filter_at_most_one)
  fix i j
  assume ij: "i < length (tasks w)" "j < length (tasks w)"
    and i: "kind (tasks w ! i) = k \<and> status (tasks w ! i) = Pending"
    and j: "kind (tasks w ! j) = k \<and> status (tasks w ! j) = Pending"
  show "i = j"
  proof (cases k)
    case AuthorizeWait
    with wf_pending_authorize [OF assms ij(1)] wf_pending_authorize [OF assms ij(2)] i j
    show ?thesis by simp
  next
    case ProvisionAttempt
    with wf_pending_provision [OF assms ij(1)] wf_pending_provision [OF assms ij(2)] i j
    show ?thesis by simp
  qed
qed

subsection \<open>Background tasks\<close>

lemma resumes_authorize [simp]:
  "resumes (snd (async_step_authorize env w)) = resumes w"
  by (cases "try_call (dev_subscribe_state_updates env)")
     (auto simp: async_step_authorize_def async_create_task_def log_call_def Let_def
        split: option.splits task_status.splits)

lemma resumes_do_provision_step [simp]:
  "resumes (snd (async_step_do_provision w)) = resumes w"
  by (auto simp: async_step_do_provision_def async_create_task_def
      split: option.splits task_status.splits)

lemma resumes_provision [simp]:
  "resumes (snd (async_step_provision user_input env w)) = resumes w"
  by (cases "try_call (dev_need_authorization env)")
     (auto simp: async_step_provision_def Let_def log_call_def split: option.splits)

lemma resumes_start_improv [simp]:
  "resumes (snd (async_step_start_improv env w)) = resumes w"
  by (cases "try_call (dev_can_identify env)")
     (auto simp: async_step_start_improv_def async_step_main_menu_def Let_def log_call_def
        split: option.splits sum.splits)

lemma resumes_step:
  "resumes (snd (step c env w)) = resumes w"
proof (cases c)
  case (Identify user_input)
  then show ?thesis
    by (cases "try_call (dev_identify env)")
       (auto simp: async_step_identify_def Let_def log_call_def)
next
  case ProvisionDone
  then show ?thesis
    by (auto simp: async_step_provision_done_def split: option.splits)
qed (simp_all add: async_step_main_menu_def async_step_bluetooth_confirm_def)

lemma resumes_do_provision:
  "resumes (snd (do_provision env w)) = resumes w"
proof (cases "credentials w")
  case None
  then show ?thesis by (simp add: do_provision_def)
next
  case (Some c)
  let ?w1 = "log_call (OpProvision (ssid c) (password c)) w"
  have auth: "resumes (snd (case async_step_authorize env ?w1 of
         (Return r, w2) \<Rightarrow> (Return (), w2\<lparr>provision_result := Some r\<rparr>)
       | (Raise e, w2) \<Rightarrow> (Raise e, w2)
       | (Await t, w2) \<Rightarrow> (Await t, w2))) = resumes w"
  proof -
    obtain o' wa where a: "async_step_authorize env ?w1 = (o', wa)"
      by (cases "async_step_authorize env ?w1")
    have "resumes (snd (async_step_authorize env ?w1)) = resumes ?w1"
      by (rule resumes_authorize)
    then have "resumes wa = resumes w"
      unfolding a by (simp add: log_call_def)
    then show ?thesis unfolding a by (cases o') simp_all
  qed
  obtain X Y where ab: "abort_flows_with_same_unique_id ?w1 = ?w1\<lparr>in_progress := X, aborted := Y\<rparr>"
    using abort_flows_shape by blast
  show ?thesis
  proof (cases "try_call (dev_provision env (ssid c) (password c))")
    case (Inl x)
    with Some auth show ?thesis
      by (cases x) (auto simp: do_provision_def Let_def log_call_def)
  next
    case (Inr url)
    with Some ab show ?thesis
      by (auto simp: do_provision_def Let_def log_call_def split: option.splits)
  qed
qed

lemma task_run_ends_task:
  assumes "t < length (tasks w)" "kind (tasks w ! t) = ProvisionAttempt"
      "status (tasks w ! t) = Pending" "\<forall>h. fst (do_provision env w) \<noteq> Await h"
  shows "resumes (provision_task_runs t env w) = Suc (resumes w)
    \<and> task_status (provision_task_runs t env w) t \<noteq> Pending"
proof -
  obtain r w' where body: "do_provision env w = (r, w')" by (cases "do_provision env w")
  have res: "resumes w' = resumes w" using resumes_do_provision [of env w] body by simp
  obtain ys where "tasks w' = tasks w @ ys"
    using tasks_do_provision [of env w] body by auto
  with assms(1) have t: "t < length (tasks w')" by simp
  show ?thesis
  proof (cases r)
    case (Return u)
    with assms(1-3) body res t show ?thesis
      by (simp add: provision_task_runs_def resume_flow_when_done_def task_status_def)
  next
    case (Raise e)
    with assms(1-3) body res t show ?thesis
      by (simp add: provision_task_runs_def resume_flow_when_done_def task_status_def)
  next
    case (Await h)
    with assms(4) body show ?thesis by simp
  qed
qed

lemma task_run_resumes:
  "resumes w \<le> resumes (provision_task_runs t env w)
   \<and> resumes (provision_task_runs t env w) \<le> Suc (resumes w)"
  using resumes_do_provision [of env w]
  by (cases "do_provision env w")
     (auto simp: provision_task_runs_def resume_flow_when_done_def split: outcome.splits)

lemma notification_ends_wait:
  assumes "wf w" "authorize_task w = Some t" "task_status w t = Pending"
    and "state \<noteq> AUTHORIZATION_REQUIRED"
  shows "state_update state w = resume_flow_when_done t Finished w"
    and "state_update later (resume_flow_when_done t Finished w) = resume_flow_when_done t Finished w"
    and "task_status (resume_flow_when_done t Finished w) t = Finished"
    and "state_update AUTHORIZATION_REQUIRED w = w"
proof -
  from assms(1,2) have s: "subscriptions w = [t]" and t: "t < length (tasks w)"
    by (simp_all add: wf_def)
  from assms(3) t have p: "status (tasks w ! t) = Pending" by (simp add: task_status_def)
  from s t p assms(4) show "state_update state w = resume_flow_when_done t Finished w"
    by (simp add: state_update_def on_state_update_def authorized_event_set_def)
  from s t show "state_update later (resume_flow_when_done t Finished w) =
      resume_flow_when_done t Finished w"
    by (simp add: state_update_def on_state_update_def authorized_event_set_def
        resume_flow_when_done_def)
  from t show "task_status (resume_flow_when_done t Finished w) t = Finished"
    by (simp add: task_status_def resume_flow_when_done_def)
  from s show "state_update AUTHORIZATION_REQUIRED w = w"
    by (simp add: state_update_def on_state_update_def)
qed

lemma notification_resumes:
  assumes "wf w"
  shows "resumes w \<le> resumes (state_update state w)
   \<and> resumes (state_update state w) \<le> Suc (resumes w)"
proof (cases "authorize_task w")
  case None
  with wf_subscriptions [OF assms] show ?thesis by (simp add: state_update_def)
next
  case (Some t)
  with wf_subscriptions [OF assms] show ?thesis
    by (simp add: state_update_def on_state_update_def authorized_event_set_def
        resume_flow_when_done_def)
qed

lemma event_resumes:
  assumes "wf w"
  shows "resumes w \<le> resumes (exec e w) \<and> resumes (exec e w) \<le> Suc (resumes w)"
proof (cases e)
  case (Step c env)
  then show ?thesis by (simp add: resumes_step)
next
  case (TaskRuns t env)
  with task_run_resumes [of w t env] show ?thesis by simp
next
  case (Notification state)
  with notification_resumes [OF assms, of state] show ?thesis by simp
next
  case FlowAborted
  then show ?thesis by (simp add: flow_manager_async_abort_def)
qed

text \<open>
  C1. After any sequence of events, at most one authorization wait and at most one
  provisioning attempt are in flight. Invoking the step of a kind while its task is
  pending starts nothing: the step awaits the task the flow holds, in an unchanged state.
  The resumptions scheduled are as many as the tasks that have ended. A pending
  provisioning task that runs to its end (its body returns or raises) is no longer
  pending and has scheduled exactly one resumption. A notification of a state other
  than authorization-required ends a pending authorization wait and schedules exactly
  one resumption; a notification of authorization-required before it and any
  notification after it schedule nothing. No step schedules a resumption, and no event
  schedules more than one: the resumption comes from the completion itself, whether or
  not a step is invoked afterwards.
\<close>

theorem one_task_in_flight:
  assumes "w = run evs (discovered fid uid flows)"
  shows "in_flight AuthorizeWait w \<le> 1 \<and> in_flight ProvisionAttempt w \<le> 1
    \<and> (\<forall>t. provision_task w = Some t \<and> task_status w t = Pending \<longrightarrow>
          step DoProvision env w = (Await t, w))
    \<and> (\<forall>t. authorize_task w = Some t \<and> task_status w t = Pending \<longrightarrow>
          step Authorize env w = (Await t, w))
    \<and> resumes w = completed w
    \<and> (\<forall>t. t < length (tasks w) \<and> kind (tasks w ! t) = ProvisionAttempt
          \<and> status (tasks w ! t) = Pending \<and> (\<forall>h. fst (do_provision env w) \<noteq> Await h) \<longrightarrow>
          resumes (exec (TaskRuns t env) w) = Suc (resumes w)
          \<and> task_status (exec (TaskRuns t env) w) t \<noteq> Pending)
    \<and> (\<forall>t state later. authorize_task w = Some t \<and> task_status w t = Pending
          \<and> state \<noteq> AUTHORIZATION_REQUIRED \<longrightarrow>
          exec (Notification AUTHORIZATION_REQUIRED) w = w
          \<and> resumes (exec (Notification state) w) = Suc (resumes w)
          \<and> task_status (exec (Notification state) w) t = Finished
          \<and> exec (Notification later) (exec (Notification state) w) =
              exec (Notification state) w)
    \<and> (\<forall>c. resumes (snd (step c env w)) = resumes w)
    \<and> (\<forall>e. resumes w \<le> resumes (exec e w) \<and> resumes (exec e w) \<le> Suc (resumes w))"
proof -
  have wf: "wf w" unfolding assms by (intro wf_run wf_discovered)
  have dev: "\<forall>t. authorize_task w = Some t \<longrightarrow> device w"
    using wf by (simp add: wf_def split: option.splits)
  have rc: "resumes w = completed w"
    using wf by (simp add: wf_def completed_def)
  have old: "in_flight AuthorizeWait w \<le> 1 \<and> in_flight ProvisionAttempt w \<le> 1
    \<and> (\<forall>t. provision_task w = Some t \<and> task_status w t = Pending \<longrightarrow>
          step DoProvision env w = (Await t, w))
    \<and> (\<forall>t. authorize_task w = Some t \<and> task_status w t = Pending \<longrightarrow>
          step Authorize env w = (Await t, w))
    \<and> resumes w = completed w"
    using dev rc wf_in_flight [OF wf]
    by (simp add: async_step_do_provision_def async_step_authorize_def)
  have runs: "\<forall>t. t < length (tasks w) \<and> kind (tasks w ! t) = ProvisionAttempt
          \<and> status (tasks w ! t) = Pending \<and> (\<forall>h. fst (do_provision env w) \<noteq> Await h) \<longrightarrow>
          resumes (exec (TaskRuns t env) w) = Suc (resumes w)
          \<and> task_status (exec (TaskRuns t env) w) t \<noteq> Pending"
    using task_run_ends_task [of _ w env] by simp
  have notif: "\<forall>t state later. authorize_task w = Some t \<and> task_status w t = Pending
          \<and> state \<noteq> AUTHORIZATION_REQUIRED \<longrightarrow>
          exec (Notification AUTHORIZATION_REQUIRED) w = w
          \<and> resumes (exec (Notification state) w) = Suc (resumes w)
          \<and> task_status (exec (Notification state) w) t = Finished
          \<and> exec (Notification later) (exec (Notification state) w) =
              exec (Notification state) w"
  proof (intro allI impI)
    fix t state later
    assume h: "authorize_task w = Some t \<and> task_status w t = Pending
          \<and> state \<noteq> AUTHORIZATION_REQUIRED"
    then have a: "authorize_task w = Some t" and b: "task_status w t = Pending"
      and c: "state \<noteq> AUTHORIZATION_REQUIRED" by simp_all
    note n = notification_ends_wait [OF wf a b c]
    have "resumes (resume_flow_when_done t Finished w) = Suc (resumes w)"
      by (simp add: resume_flow_when_done_def)
    with n(1) n(2) [of later] n(3) n(4)
    show "exec (Notification AUTHORIZATION_REQUIRED) w = w
          \<and> resumes (exec (Notification state) w) = Suc (resumes w)
          \<and> task_status (exec (Notification state) w) t = Finished
          \<and> exec (Notification later) (exec (Notification state) w) =
              exec (Notification state) w"
      by simp
  qed
  have steps: "\<forall>c. resumes (snd (step c env w)) = resumes w"
    by (simp add: resumes_step)
  have events: "\<forall>e. resumes w \<le> resumes (exec e w) \<and> resumes (exec e w) \<le> Suc (resumes w)"
    using event_resumes [OF wf] by blast
  from old runs notif steps events show ?thesis by blast
qed

theorem one_task_in_flight_witness:
  "provision_task example_both_pending = Some 1
   \<and> task_status example_both_pending 1 = Pending
   \<and> authorize_task example_both_pending = Some 0
   \<and> task_status example_both_pending 0 = Pending
   \<and> step DoProvision example_env example_both_pending = (Await 1, example_both_pending)
   \<and> step Authorize example_env example_both_pending = (Await 0, example_both_pending)
   \<and> in_flight ProvisionAttempt example_both_pending \<le> 1
   \<and> resumes example_both_pending = 0
   \<and> resumes (exec (TaskRuns 1 example_env) example_both_pending) = Suc (resumes example_both_pending)
   \<and> task_status (exec (TaskRuns 1 example_env) example_both_pending) 1 \<noteq> Pending
   \<and> resumes (exec (Notification AUTHORIZED) example_both_pending) = Suc (resumes example_both_pending)
   \<and> task_status (exec (Notification AUTHORIZED) example_both_pending) 0 = Finished"
proof -
  have r: "example_both_pending =
      run [Step StartImprov example_env, Step (Provision (Some example_input)) example_env,
           Step DoProvision example_env]
        (discovered ''f1'' (Some ''AA'')
          [(''f1'', Some ''AA''), (''f2'', Some ''AA''), (''f3'', Some ''BB'')])"
    by (simp add: example_both_pending_def example_flow_def)
  have p: "provision_task example_both_pending = Some 1" "task_status example_both_pending 1 = Pending"
      "authorize_task example_both_pending = Some 0" "task_status example_both_pending 0 = Pending"
      "resumes example_both_pending = 0"
      "1 < length (tasks example_both_pending)"
      "kind (tasks example_both_pending ! 1) = ProvisionAttempt"
      "status (tasks example_both_pending ! 1) = Pending"
      "\<forall>h. fst (do_provision example_env example_both_pending) \<noteq> Await h"
      "AUTHORIZED \<noteq> AUTHORIZATION_REQUIRED"
    by (simp_all add: example_both_pending_def flow_defs)
  note t = one_task_in_flight [OF r, of example_env]
  from t p(1,2) have a: "step DoProvision example_env example_both_pending = (Await 1, example_both_pending)"
    by blast
  from t p(3,4) have b: "step Authorize example_env example_both_pending = (Await 0, example_both_pending)"
    by blast
  from t have c: "in_flight ProvisionAttempt example_both_pending \<le> 1" by blast
  from t p(6-9) have d: "resumes (exec (TaskRuns 1 example_env) example_both_pending) =
        Suc (resumes example_both_pending)
      \<and> task_status (exec (TaskRuns 1 example_env) example_both_pending) 1 \<noteq> Pending"
    by blast
  from t p(3,4,10) have e: "resumes (exec (Notification AUTHORIZED) example_both_pending) =
        Suc (resumes example_both_pending)
      \<and> task_status (exec (Notification AUTHORIZED) example_both_pending) 0 = Finished"
    by blast
  from p(1-5) a b c d e show ?thesis by blast
qed

subsection \<open>The authorization wait\<close>




subsection \<open>Outcomes of a provisioning attempt\<close>

lemma task_pending [simp]:
  "t < length (tasks w) \<Longrightarrow> status (tasks w ! t) = Pending \<Longrightarrow> task_status w t = Pending"
  by (simp add: task_status_def)

text \<open>
C3. A pending provisioning task whose call of \<^verbatim>\<open>provision\<close> fails with
  \<open>ProvisioningFailed UNABLE_TO_CONNECT\<close> clears the credentials. The step that collects
  the task returns progress-done, and the provision-done step returns the provision form
  with the error \<open>base: unable_to_connect\<close>, not an abort. Without input the provision
  step shows the form again; with new credentials (and a device that needs no
  authorization) it stores them and starts a fresh provisioning task.
\<close>

theorem unable_to_connect_asks_again:
  assumes "provision_task w = Some t" "t < length (tasks w)"
      "kind (tasks w ! t) = ProvisionAttempt" "status (tasks w ! t) = Pending"
    and "credentials w = Some c" "device w"
    and "dev_provision env (ssid c) (password c) = Inl (ProvisioningFailed UNABLE_TO_CONNECT)"
    and "dev_need_authorization env' = Inr False"
    and "w1 = exec (TaskRuns t env) w"
    and "w2 = snd (step DoProvision env1 w1)"
    and "w3 = snd (step ProvisionDone env2 w2)"
    and "w4 = snd (step (Provision (Some ui)) env' w3)"
  shows "credentials w1 = None
    \<and> fst (step DoProvision env1 w1) = Return (async_show_progress_done ''provision_done'')
    \<and> fst (step ProvisionDone env2 w2) =
        Return (async_show_form ''provision'' (Some STEP_PROVISION_SCHEMA)
                  (Some [(''base'', ''unable_to_connect'')]))
    \<and> credentials w3 = None
    \<and> fst (step (Provision None) env' w3) =
        Return (async_show_form ''provision'' (Some STEP_PROVISION_SCHEMA) None)
    \<and> fst (step (Provision (Some ui)) env' w3) =
        Return (async_show_progress ''do_provision'' ''provisioning'')
    \<and> credentials w4 =
        Some \<lparr>password = (case input_password ui of None \<Rightarrow> [] | Some p \<Rightarrow> p),
              ssid = input_ssid ui\<rparr>
    \<and> provision_task w4 = Some (length (tasks w))
    \<and> task_status w4 (length (tasks w)) = Pending
    \<and> kind (tasks w4 ! length (tasks w)) = ProvisionAttempt"
proof -
  let ?form = "async_show_form ''provision'' (Some STEP_PROVISION_SCHEMA)
                  (Some [(''base'', ''unable_to_connect'')])"
  have body: "do_provision env w =
      (Return (), w\<lparr>calls := calls w @ [OpProvision (ssid c) (password c)],
                    credentials := None, provision_result := Some ?form\<rparr>)"
    using assms(5-7) by (simp add: do_provision_def log_call_def)
  have w1: "w1 = w\<lparr>calls := calls w @ [OpProvision (ssid c) (password c)],
                    credentials := None, provision_result := Some ?form,
                    tasks := (tasks w)[t := (tasks w ! t)\<lparr>status := Finished\<rparr>],
                    resumes := Suc (resumes w)\<rparr>"
    using assms(2-4,9) body by (simp add: provision_task_runs_def resume_flow_when_done_def)
  have s1: "step DoProvision env1 w1 =
      (Return (async_show_progress_done ''provision_done''), w1\<lparr>provision_task := None\<rparr>)"
    using assms(1,2) by (simp add: w1 async_step_do_provision_def task_status_def)
  then have w2: "w2 = w1\<lparr>provision_task := None\<rparr>" using assms(10) by simp
  have s2: "step ProvisionDone env2 w2 = (Return ?form, w2\<lparr>provision_result := None\<rparr>)"
    by (simp add: w2 w1 async_step_provision_done_def)
  then have w3: "w3 = w2\<lparr>provision_result := None\<rparr>" using assms(11) by simp
  have s3: "step (Provision (Some ui)) env' w3 =
      (Return (async_show_progress ''do_provision'' ''provisioning''),
       w3\<lparr>credentials :=
             Some \<lparr>password = (case input_password ui of None \<Rightarrow> [] | Some p \<Rightarrow> p),
                   ssid = input_ssid ui\<rparr>,
          calls := calls w3 @ [OpNeedAuthorization],
          tasks := tasks w3 @ [\<lparr>kind = ProvisionAttempt, status = Pending\<rparr>],
          provision_task := Some (length (tasks w))\<rparr>)"
    using assms(6,8)
    by (simp add: w3 w2 w1 async_step_provision_def async_step_do_provision_def
        async_create_task_def log_call_def Let_def)
  have s3': "fst (step (Provision None) env' w3) =
        Return (async_show_form ''provision'' (Some STEP_PROVISION_SCHEMA) None)"
    using assms(6) by (simp add: w3 w2 w1 async_step_provision_def)
  have "provision_task w4 = Some (length (tasks w))"
      "task_status w4 (length (tasks w)) = Pending"
      "kind (tasks w4 ! length (tasks w)) = ProvisionAttempt"
      "credentials w4 =
        Some \<lparr>password = (case input_password ui of None \<Rightarrow> [] | Some p \<Rightarrow> p),
              ssid = input_ssid ui\<rparr>"
    using assms(12) s3 by (simp_all add: w3 w2 w1 task_status_def nth_append)
  moreover have "credentials w1 = None" "credentials w3 = None"
    by (simp_all add: w3 w2 w1)
  ultimately show ?thesis using s1 s2 s3 s3' by simp
qed


theorem unable_to_connect_asks_again_witness:
  "provision_task example_provisioning = Some 0
   \<and> credentials example_provisioning = Some \<lparr>password = ''secret'', ssid = ''net''\<rparr>
   \<and> credentials (exec (TaskRuns 0 (example_failing_env UNABLE_TO_CONNECT)) example_provisioning) = None
   \<and> fst (step ProvisionDone example_env
        (snd (step DoProvision example_env
          (exec (TaskRuns 0 (example_failing_env UNABLE_TO_CONNECT)) example_provisioning)))) =
       Return (async_show_form ''provision'' (Some STEP_PROVISION_SCHEMA)
                 (Some [(''base'', ''unable_to_connect'')]))"
proof -
  have h: "provision_task example_provisioning = Some 0"
      "0 < length (tasks example_provisioning)"
      "kind (tasks example_provisioning ! 0) = ProvisionAttempt"
      "status (tasks example_provisioning ! 0) = Pending"
      "credentials example_provisioning = Some \<lparr>password = ''secret'', ssid = ''net''\<rparr>"
      "device example_provisioning"
      "dev_provision (example_failing_env UNABLE_TO_CONNECT)
         (ssid \<lparr>password = ''secret'', ssid = ''net''\<rparr>)
         (password \<lparr>password = ''secret'', ssid = ''net''\<rparr>) =
       Inl (ProvisioningFailed UNABLE_TO_CONNECT)"
      "dev_need_authorization example_open_env = Inr False"
    by (simp_all add: flow_defs)
  from unable_to_connect_asks_again [OF h refl refl refl refl, of example_env example_env] h(1,5)
  show ?thesis by simp
qed

lemma credentials_authorize [simp]:
  "credentials (snd (async_step_authorize env w)) = credentials w"
  by (cases "try_call (dev_subscribe_state_updates env)")
     (auto simp: async_step_authorize_def async_create_task_def log_call_def Let_def
        split: option.splits task_status.splits)




subsection \<open>Delivery of the provisioning result\<close>

lemma do_provision_stores_result:
  assumes "fst (do_provision env w) = Return u"
  shows "provision_result (snd (do_provision env w)) \<noteq> None"
proof (cases "credentials w")
  case None
  with assms show ?thesis by (simp add: do_provision_def)
next
  case (Some c)
  show ?thesis
  proof (cases "device w")
    case False
    with Some assms show ?thesis by (simp add: do_provision_def)
  next
    case True
    show ?thesis
    proof (cases "try_call (dev_provision env (ssid c) (password c))")
      case (Inl e)
      with Some True assms show ?thesis
        by (cases e)
           (auto simp: do_provision_def Let_def split: prod.splits outcome.splits if_splits)
    next
      case (Inr url)
      with Some True show ?thesis
        by (auto simp: do_provision_def Let_def split: option.splits)
    qed
  qed
qed

text \<open>
C10. With the provisioning task finished and a result stored, the do-provision step
  resets the task handle and returns progress-done; the provision-done step returns the
  stored result and resets it to \<open>None\<close>; a second call of provision-done fails its
  assertion and returns nothing; the next do-provision step starts a fresh pending task.
  A task body that returns has always stored a result.
\<close>

theorem provision_result_delivered_once:
  assumes "provision_task w = Some t" "task_status w t = Finished" "provision_result w = Some r"
    and "w2 = snd (step DoProvision env1 w)"
    and "w3 = snd (step ProvisionDone env2 w2)"
    and "w4 = snd (step DoProvision env4 w3)"
  shows "step DoProvision env1 w =
        (Return (async_show_progress_done ''provision_done''), w\<lparr>provision_task := None\<rparr>)
    \<and> step ProvisionDone env2 w2 = (Return r, w2\<lparr>provision_result := None\<rparr>)
    \<and> provision_result w3 = None
    \<and> step ProvisionDone env3 w3 = (Raise AssertionError, w3)
    \<and> fst (step DoProvision env4 w3) = Return (async_show_progress ''do_provision'' ''provisioning'')
    \<and> provision_task w4 = Some (length (tasks w))
    \<and> task_status w4 (length (tasks w)) = Pending
    \<and> kind (tasks w4 ! length (tasks w)) = ProvisionAttempt
    \<and> (\<forall>env0 w0 u. fst (do_provision env0 w0) = Return u \<longrightarrow>
          provision_result (snd (do_provision env0 w0)) \<noteq> None)"
proof -
  have s1: "step DoProvision env1 w =
        (Return (async_show_progress_done ''provision_done''), w\<lparr>provision_task := None\<rparr>)"
    using assms(1,2) by (simp add: async_step_do_provision_def)
  then have w2: "w2 = w\<lparr>provision_task := None\<rparr>" using assms(4) by simp
  have s2: "step ProvisionDone env2 w2 = (Return r, w2\<lparr>provision_result := None\<rparr>)"
    using assms(3) by (simp add: w2 async_step_provision_done_def)
  then have w3: "w3 = w2\<lparr>provision_result := None\<rparr>" using assms(5) by simp
  have s3: "step ProvisionDone env3 w3 = (Raise AssertionError, w3)"
    by (simp add: w3 async_step_provision_done_def)
  have s4: "step DoProvision env4 w3 =
      (Return (async_show_progress ''do_provision'' ''provisioning''),
       w3\<lparr>tasks := tasks w @ [\<lparr>kind = ProvisionAttempt, status = Pending\<rparr>],
          provision_task := Some (length (tasks w))\<rparr>)"
    by (simp add: w3 w2 async_step_do_provision_def async_create_task_def)
  have "provision_task w4 = Some (length (tasks w))"
      "task_status w4 (length (tasks w)) = Pending"
      "kind (tasks w4 ! length (tasks w)) = ProvisionAttempt"
    using assms(6) s4 by (simp_all add: task_status_def)
  moreover have "provision_result w3 = None" by (simp add: w3)
  ultimately show ?thesis
    using s1 s2 s3 s4 do_provision_stores_result by simp
qed


theorem provision_result_delivered_once_witness:
  "provision_task (exec (TaskRuns 0 example_env) example_provisioning) = Some 0
   \<and> task_status (exec (TaskRuns 0 example_env) example_provisioning) 0 = Finished
   \<and> provision_result (exec (TaskRuns 0 example_env) example_provisioning) =
       Some (async_abort ''provision_successful_url'' (Some [(''url'', ''http://x/y'')]))
   \<and> step ProvisionDone example_env
        (snd (step DoProvision example_env (exec (TaskRuns 0 example_env) example_provisioning))) =
       (Return (async_abort ''provision_successful_url'' (Some [(''url'', ''http://x/y'')])),
        (snd (step DoProvision example_env (exec (TaskRuns 0 example_env) example_provisioning)))
          \<lparr>provision_result := None\<rparr>)
   \<and> provision_result
        (snd (step ProvisionDone example_env
          (snd (step DoProvision example_env
            (exec (TaskRuns 0 example_env) example_provisioning))))) = None"
proof -
  have h: "provision_task (exec (TaskRuns 0 example_env) example_provisioning) = Some 0"
      "task_status (exec (TaskRuns 0 example_env) example_provisioning) 0 = Finished"
      "provision_result (exec (TaskRuns 0 example_env) example_provisioning) =
         Some (async_abort ''provision_successful_url'' (Some [(''url'', ''http://x/y'')]))"
    by (simp_all add: flow_defs)
  from provision_result_delivered_once [where ?env1.0 = example_env and ?env2.0 = example_env
      and ?env3.0 = example_env and ?env4.0 = example_env, OF h refl refl refl] h
  show ?thesis by blast
qed

subsection \<open>Success\<close>

lemma fold_abort_flows:
  "fold (\<lambda>flow w'.
           if fst flow \<noteq> flow_id w' \<and> unique_id w' = snd flow
           then flow_manager_async_abort (fst flow) w' else w') fs w =
   w\<lparr>in_progress :=
       filter (\<lambda>g. fst g \<notin> set (map fst (filter (\<lambda>f. fst f \<noteq> flow_id w \<and> unique_id w = snd f) fs)))
         (in_progress w),
     aborted := aborted w @ map fst (filter (\<lambda>f. fst f \<noteq> flow_id w \<and> unique_id w = snd f) fs)\<rparr>"
proof (induction fs arbitrary: w)
  case Nil
  show ?case by simp
next
  case (Cons f fs)
  show ?case
    by (simp add: Cons.IH flow_manager_async_abort_def)
qed

lemma abort_flows_result:
  "abort_flows_with_same_unique_id w =
   w\<lparr>in_progress :=
       filter (\<lambda>g. fst g \<notin> set (map fst (filter (\<lambda>f. fst f \<noteq> flow_id w \<and> unique_id w = snd f)
                                         (in_progress w))))
         (in_progress w),
     aborted := aborted w @ map fst (filter (\<lambda>f. fst f \<noteq> flow_id w \<and> unique_id w = snd f)
                                        (in_progress w))\<rparr>"
  unfolding abort_flows_with_same_unique_id_def by (rule fold_abort_flows)

text \<open>
C6. A pending provisioning task whose call of \<^verbatim>\<open>provision\<close> succeeds aborts, through
  the flow manager, exactly the flows in progress that have another flow id and the
  unique id of this flow, in their order; none of them is in progress afterwards, and
  this flow still is. The steps that collect the task then end the flow with the stored
  result: \<^verbatim>\<open>async_abort(reason="provision_successful_url")\<close> with the redirect URL as the
  placeholder \<open>url\<close> when the device returned a non-empty URL, and
  \<^verbatim>\<open>async_abort(reason="provision_successful")\<close> when it returned none (or an empty
  one). These two results are how the flow reports success.
\<close>

theorem success_ends_flow_and_aborts_siblings:
  assumes "provision_task w = Some t" "t < length (tasks w)"
      "kind (tasks w ! t) = ProvisionAttempt" "status (tasks w ! t) = Pending"
    and "credentials w = Some c" "device w"
    and "dev_provision env (ssid c) (password c) = Inr redirect_url"
    and "w1 = exec (TaskRuns t env) w"
    and "w2 = snd (step DoProvision env1 w1)"
  shows "aborted w1 = aborted w @
           map fst (filter (\<lambda>f. fst f \<noteq> flow_id w \<and> unique_id w = snd f) (in_progress w))
    \<and> (\<forall>f \<in> set (in_progress w). fst f \<noteq> flow_id w \<and> snd f = unique_id w \<longrightarrow>
          fst f \<in> set (aborted w1) \<and> fst f \<notin> fst ` set (in_progress w1))
    \<and> (\<forall>f \<in> set (in_progress w). fst f = flow_id w \<longrightarrow> f \<in> set (in_progress w1))
    \<and> fst (step DoProvision env1 w1) = Return (async_show_progress_done ''provision_done'')
    \<and> (\<forall>url. redirect_url = Some url \<and> url \<noteq> [] \<longrightarrow>
          fst (step ProvisionDone env2 w2) =
            Return (async_abort ''provision_successful_url'' (Some [(''url'', url)])))
    \<and> (redirect_url = None \<or> redirect_url = Some [] \<longrightarrow>
          fst (step ProvisionDone env2 w2) = Return (async_abort ''provision_successful'' None))"
proof -
  let ?same = "\<lambda>f. fst f \<noteq> flow_id w \<and> unique_id w = snd f"
  let ?result = "case redirect_url of
        None \<Rightarrow> async_abort ''provision_successful'' None
      | Some url \<Rightarrow> if url \<noteq> [] then async_abort ''provision_successful_url'' (Some [(''url'', url)])
                    else async_abort ''provision_successful'' None"
  let ?inp = "filter (\<lambda>g. fst g \<notin> set (map fst (filter ?same (in_progress w)))) (in_progress w)"
  let ?ab = "aborted w @ map fst (filter ?same (in_progress w))"
  have body: "do_provision env w =
      (Return (), w\<lparr>calls := calls w @ [OpProvision (ssid c) (password c)],
                    in_progress := ?inp, aborted := ?ab, provision_result := Some ?result\<rparr>)"
    using assms(5-7)
    by (simp add: do_provision_def log_call_def abort_flows_result Let_def split: option.splits)
  have w1: "w1 = w\<lparr>calls := calls w @ [OpProvision (ssid c) (password c)],
                    in_progress := ?inp, aborted := ?ab, provision_result := Some ?result,
                    tasks := (tasks w)[t := (tasks w ! t)\<lparr>status := Finished\<rparr>],
                    resumes := Suc (resumes w)\<rparr>"
    using assms(2-4,8) body by (simp add: provision_task_runs_def resume_flow_when_done_def)
  have s1: "step DoProvision env1 w1 =
      (Return (async_show_progress_done ''provision_done''), w1\<lparr>provision_task := None\<rparr>)"
    using assms(1,2) by (simp add: w1 async_step_do_provision_def task_status_def)
  then have w2: "w2 = w1\<lparr>provision_task := None\<rparr>" using assms(9) by simp
  have s2: "fst (step ProvisionDone env2 w2) = Return ?result"
    by (simp add: w2 w1 async_step_provision_done_def)
  have a: "aborted w1 = ?ab" by (simp add: w1)
  have b: "\<forall>f \<in> set (in_progress w). fst f \<noteq> flow_id w \<and> snd f = unique_id w \<longrightarrow>
          fst f \<in> set (aborted w1) \<and> fst f \<notin> fst ` set (in_progress w1)"
    by (force simp: w1)
  have c: "\<forall>f \<in> set (in_progress w). fst f = flow_id w \<longrightarrow> f \<in> set (in_progress w1)"
    by (auto simp: w1)
  from a b c s1 s2 show ?thesis by simp
qed

theorem success_ends_flow_and_aborts_siblings_witness:
  "provision_task example_provisioning = Some 0
   \<and> in_progress example_provisioning =
       [(''f1'', Some ''AA''), (''f2'', Some ''AA''), (''f3'', Some ''BB'')]
   \<and> flow_id example_provisioning = ''f1'' \<and> unique_id example_provisioning = Some ''AA''
   \<and> aborted (exec (TaskRuns 0 example_env) example_provisioning) = [''f2'']
   \<and> in_progress (exec (TaskRuns 0 example_env) example_provisioning) =
       [(''f1'', Some ''AA''), (''f3'', Some ''BB'')]
   \<and> fst (step ProvisionDone example_env
        (snd (step DoProvision example_env (exec (TaskRuns 0 example_env) example_provisioning)))) =
       Return (async_abort ''provision_successful_url'' (Some [(''url'', ''http://x/y'')]))"
proof -
  have h: "provision_task example_provisioning = Some 0"
      "0 < length (tasks example_provisioning)"
      "kind (tasks example_provisioning ! 0) = ProvisionAttempt"
      "status (tasks example_provisioning ! 0) = Pending"
      "credentials example_provisioning = Some \<lparr>password = ''secret'', ssid = ''net''\<rparr>"
      "device example_provisioning"
      "dev_provision example_env
         (ssid \<lparr>password = ''secret'', ssid = ''net''\<rparr>)
         (password \<lparr>password = ''secret'', ssid = ''net''\<rparr>) = Inr (Some ''http://x/y'')"
    and e: "in_progress example_provisioning =
       [(''f1'', Some ''AA''), (''f2'', Some ''AA''), (''f3'', Some ''BB'')]"
      "flow_id example_provisioning = ''f1''" "unique_id example_provisioning = Some ''AA''"
      "aborted example_provisioning = []"
      "in_progress (exec (TaskRuns 0 example_env) example_provisioning) =
         [(''f1'', Some ''AA''), (''f3'', Some ''BB'')]"
    by (simp_all add: flow_defs)
  from success_ends_flow_and_aborts_siblings [where ?env1.0 = example_env
      and ?env2.0 = example_env, OF h refl refl]
  have "aborted (exec (TaskRuns 0 example_env) example_provisioning) =
      aborted example_provisioning @
           map fst (filter (\<lambda>f. fst f \<noteq> flow_id example_provisioning
                       \<and> unique_id example_provisioning = snd f) (in_progress example_provisioning))"
    and "fst (step ProvisionDone example_env
        (snd (step DoProvision example_env (exec (TaskRuns 0 example_env) example_provisioning)))) =
       Return (async_abort ''provision_successful_url'' (Some [(''url'', ''http://x/y'')]))"
    by blast+
  with h(1) e show ?thesis by simp
qed

subsection \<open>The capability cache\<close>

lemma same_probe_refl [simp]: "same_probe w w"
  by (simp add: same_probe_def)

lemma same_probe_trans: "same_probe w w' \<Longrightarrow> same_probe w' w'' \<Longrightarrow> same_probe w w''"
  by (simp add: same_probe_def)

lemma probe_authorize: "same_probe w (snd (async_step_authorize env w))"
  by (cases "try_call (dev_subscribe_state_updates env)")
     (auto simp: same_probe_def can_identify_queries_def async_step_authorize_def
        async_create_task_def log_call_def Let_def split: option.splits task_status.splits)

lemma probe_do_provision_step: "same_probe w (snd (async_step_do_provision w))"
  by (auto simp: same_probe_def can_identify_queries_def async_step_do_provision_def
        async_create_task_def split: option.splits task_status.splits)

lemma probe_provision: "same_probe w (snd (async_step_provision user_input env w))"
proof -
  have *: "same_probe w (snd (async_step_authorize env w'))"
      "same_probe w (snd (async_step_do_provision w'))" if "same_probe w w'" for w'
    using that probe_authorize [of w' env] probe_do_provision_step [of w']
    by (blast intro: same_probe_trans)+
  have **: "same_probe w (log_call OpNeedAuthorization (w\<lparr>credentials := c\<rparr>))"
      "same_probe w (log_call OpNeedAuthorization w)" for c
    by (simp_all add: same_probe_def can_identify_queries_def log_call_def)
  show ?thesis
    by (cases "try_call (dev_need_authorization env)")
       (auto simp: async_step_provision_def Let_def * ** split: option.splits)
qed

lemma probe_start_improv:
  assumes "can_identify w \<noteq> None"
  shows "same_probe w (snd (async_step_start_improv env w))"
proof -
  have *: "same_probe w (snd (async_step_provision None env w'))" if "same_probe w w'" for w'
    using that probe_provision [of w' None env] by (blast intro: same_probe_trans)
  have **: "same_probe w (w\<lparr>device := True\<rparr>)" "same_probe w (w\<lparr>discovery_info := False\<rparr>)"
    by (simp_all add: same_probe_def can_identify_queries_def)
  show ?thesis
    using assms
    by (auto simp: async_step_start_improv_def async_step_main_menu_def Let_def * **
        split: option.splits sum.splits)
qed

lemma probe_step:
  assumes "can_identify w \<noteq> None"
  shows "same_probe w (snd (step c env w))"
proof (cases c)
  case (Identify user_input)
  have "same_probe w (log_call OpIdentify w)"
    by (simp add: same_probe_def can_identify_queries_def log_call_def)
  with Identify assms show ?thesis
    by (cases "try_call (dev_identify env)")
       (auto simp: async_step_identify_def probe_start_improv Let_def)
next
  case ProvisionDone
  then show ?thesis
    by (simp add: async_step_provision_done_def same_probe_def can_identify_queries_def
        split: option.splits)
qed (use assms in \<open>simp_all add: probe_start_improv probe_provision probe_authorize
      probe_do_provision_step async_step_main_menu_def async_step_bluetooth_confirm_def\<close>)

lemma probe_do_provision: "same_probe w (snd (do_provision env w))"
proof (cases "credentials w")
  case None
  then show ?thesis by (simp add: do_provision_def)
next
  case (Some c)
  let ?w1 = "log_call (OpProvision (ssid c) (password c)) w"
  have w1: "same_probe w ?w1"
    by (simp add: same_probe_def can_identify_queries_def log_call_def)
  have *: "same_probe w (snd (async_step_authorize env ?w1))"
    using w1 probe_authorize [of ?w1 env] by (blast intro: same_probe_trans)
  have **: "same_probe w (snd p) \<Longrightarrow>
      same_probe w (snd (case p of (Return r, w2) \<Rightarrow> (Return (), w2\<lparr>provision_result := Some r\<rparr>)
                       | (Raise e, w2) \<Rightarrow> (Raise e, w2)
                       | (Await t, w2) \<Rightarrow> (Await t, w2)))" for p :: "flow_result outcome \<times> world"
    by (cases p) (auto simp: same_probe_def can_identify_queries_def split: outcome.splits)
  have ***: "same_probe w ((abort_flows_with_same_unique_id ?w1)\<lparr>provision_result := r\<rparr>)" for r
    by (simp add: abort_flows_result same_probe_def can_identify_queries_def log_call_def)
  have ****: "same_probe w (?w1\<lparr>provision_result := r\<rparr>)"
    "same_probe w (?w1\<lparr>credentials := None, provision_result := r\<rparr>)" for r
    by (simp_all add: same_probe_def can_identify_queries_def log_call_def)
  show ?thesis
  proof (cases "try_call (dev_provision env (ssid c) (password c))")
    case (Inl e)
    with Some w1 show ?thesis
      by (cases e) (auto simp: do_provision_def Let_def * ** **** )
  next
    case (Inr url)
    with Some w1 show ?thesis
      by (auto simp: do_provision_def Let_def *** split: option.splits)
  qed
qed

lemma probe_resume [simp]: "same_probe w (resume_flow_when_done t st w') = same_probe w w'"
  by (simp add: same_probe_def can_identify_queries_def resume_flow_when_done_def)

lemma probe_task_runs: "same_probe w (provision_task_runs t env w)"
  using probe_do_provision [of w env]
  by (cases "do_provision env w")
     (auto simp: provision_task_runs_def split: outcome.splits)

lemma probe_fold_update:
  "same_probe w (fold (\<lambda>h. on_state_update h state) hs w') = same_probe w w'"
  by (induction hs arbitrary: w') (simp_all add: on_state_update_def authorized_event_set_def)

lemma probe_exec:
  assumes "can_identify w \<noteq> None"
  shows "same_probe w (exec e w)"
  using assms
  by (cases e)
     (simp_all add: probe_step probe_task_runs state_update_def probe_fold_update,
      simp add: same_probe_def can_identify_queries_def flow_manager_async_abort_def)

lemma probe_run:
  assumes "can_identify w \<noteq> None"
  shows "same_probe w (run evs w)"
  using assms
proof (induction evs arbitrary: w)
  case Nil
  show ?case by (simp add: run_def)
next
  case (Cons e evs)
  from Cons.prems have "same_probe w (exec e w)" by (rule probe_exec)
  moreover from this Cons.prems have "can_identify (exec e w) \<noteq> None"
    by (simp add: same_probe_def)
  then have "same_probe (exec e w) (run evs (exec e w))" by (rule Cons.IH)
  ultimately show ?case by (simp add: run_def same_probe_def)
qed

text \<open>
  C7, as amended. A pass through the start-improv step with nothing cached, on a
  device that is not provisioned, issues \<^verbatim>\<open>can_identify\<close> once; it caches the answer
  when the call returns and caches nothing when the call raises. Once an answer is
  cached, no sequence of events issues the query again or changes the cached value:
  every later pass through the step reuses it. A query that raises \<open>CommandFailed\<close>
  leaves the step as an exception with the device session in place, and the next pass
  queries again, so the claim's "at most once per DeviceSession" fails.
\<close>

theorem can_identify_cached:
  "(discovery_info w \<and> can_identify w = None \<and> last_service_info env = Some (Inr state)
      \<and> state \<noteq> PROVISIONING \<and> state \<noteq> PROVISIONED \<and> dev_can_identify env = Inr b \<longrightarrow>
        can_identify (snd (step StartImprov env w)) = Some b
        \<and> can_identify_queries (snd (step StartImprov env w)) = Suc (can_identify_queries w))
   \<and> (can_identify w = Some b \<longrightarrow>
        can_identify (run evs w) = Some b
        \<and> can_identify_queries (run evs w) = can_identify_queries w)
   \<and> (discovery_info w \<and> can_identify w = None \<and> last_service_info env = Some (Inr state)
      \<and> state \<noteq> PROVISIONING \<and> state \<noteq> PROVISIONED \<and> dev_can_identify env = Inl e \<longrightarrow>
        can_identify (snd (step StartImprov env w)) = None
        \<and> can_identify_queries (snd (step StartImprov env w)) = Suc (can_identify_queries w))"
proof -
  have first: "can_identify (snd (step StartImprov env w)) = Some b
        \<and> can_identify_queries (snd (step StartImprov env w)) = Suc (can_identify_queries w)"
    if h: "discovery_info w" "can_identify w = None" "last_service_info env = Some (Inr state)"
      "state \<noteq> PROVISIONING" "state \<noteq> PROVISIONED" "dev_can_identify env = Inr b"
  proof -
    let ?w3 = "(log_call OpCanIdentify (w\<lparr>device := True\<rparr>))\<lparr>can_identify := Some b\<rparr>"
    have q: "can_identify ?w3 = Some b" "can_identify_queries ?w3 = Suc (can_identify_queries w)"
      by (simp_all add: can_identify_queries_def log_call_def)
    have "same_probe ?w3 (snd (step StartImprov env w))"
      using h probe_provision [of ?w3 None env]
      by (cases b) (simp_all add: async_step_start_improv_def async_step_main_menu_def Let_def)
    with q show ?thesis by (simp add: same_probe_def)
  qed
  have later: "can_identify (run evs w) = Some b
        \<and> can_identify_queries (run evs w) = can_identify_queries w"
    if "can_identify w = Some b"
    using that probe_run [of w evs] by (simp add: same_probe_def)
  have raised: "can_identify (snd (step StartImprov env w)) = None
        \<and> can_identify_queries (snd (step StartImprov env w)) = Suc (can_identify_queries w)"
    if h: "discovery_info w" "can_identify w = None" "last_service_info env = Some (Inr state)"
      "state \<noteq> PROVISIONING" "state \<noteq> PROVISIONED" "dev_can_identify env = Inl e"
  proof -
    obtain e' where "try_call (dev_can_identify env) = Inl e'"
      using h(6) by (cases e) simp_all
    with h have "snd (step StartImprov env w) = log_call OpCanIdentify (w\<lparr>device := True\<rparr>)"
      by (simp add: async_step_start_improv_def Let_def)
    with h(2) show ?thesis by (simp add: can_identify_queries_def log_call_def)
  qed
  from first later raised show ?thesis by blast
qed


theorem can_identify_cached_witness:
  "discovery_info example_flow \<and> can_identify example_flow = None
   \<and> can_identify (snd (step StartImprov example_identify_env example_flow)) = Some True
   \<and> can_identify_queries (snd (step StartImprov example_identify_env example_flow)) =
       Suc (can_identify_queries example_flow)
   \<and> can_identify (run [Step (Identify None) example_identify_env,
          Step (Identify (Some ())) example_identify_env]
        (snd (step StartImprov example_identify_env example_flow))) = Some True
   \<and> can_identify_queries (run [Step (Identify None) example_identify_env,
          Step (Identify (Some ())) example_identify_env]
        (snd (step StartImprov example_identify_env example_flow))) =
       can_identify_queries (snd (step StartImprov example_identify_env example_flow))"
proof -
  have h: "discovery_info example_flow" "can_identify example_flow = None"
      "last_service_info example_identify_env = Some (Inr AUTHORIZED)"
      "AUTHORIZED \<noteq> PROVISIONING" "AUTHORIZED \<noteq> PROVISIONED"
      "dev_can_identify example_identify_env = Inr True"
    by (simp_all add: flow_defs example_identify_env_def)
  from can_identify_cached [of example_flow example_identify_env AUTHORIZED True] h
  have a: "can_identify (snd (step StartImprov example_identify_env example_flow)) = Some True"
    and b: "can_identify_queries (snd (step StartImprov example_identify_env example_flow)) =
       Suc (can_identify_queries example_flow)"
    by blast+
  from can_identify_cached [of "snd (step StartImprov example_identify_env example_flow)" _ _ True
      "[Step (Identify None) example_identify_env, Step (Identify (Some ())) example_identify_env]"] a
  have "can_identify (run [Step (Identify None) example_identify_env,
          Step (Identify (Some ())) example_identify_env]
        (snd (step StartImprov example_identify_env example_flow))) = Some True
   \<and> can_identify_queries (run [Step (Identify None) example_identify_env,
          Step (Identify (Some ())) example_identify_env]
        (snd (step StartImprov example_identify_env example_flow))) =
       can_identify_queries (snd (step StartImprov example_identify_env example_flow))"
    by blast
  with h(1,2) a b show ?thesis by blast
qed

text \<open>
  On a device whose \<^verbatim>\<open>can_identify\<close> raises \<open>CommandFailed\<close> the start-improv step
  raises, the device session stays and nothing is cached; a second pass through the step
  issues the query again: two queries on one session.
\<close>

theorem can_identify_queried_twice:
  "fst (step StartImprov example_probe_failed_env example_flow) = Raise CommandFailed
   \<and> device (run [Step StartImprov example_probe_failed_env] example_flow)
   \<and> can_identify (run [Step StartImprov example_probe_failed_env] example_flow) = None
   \<and> can_identify_queries
        (run [Step StartImprov example_probe_failed_env,
              Step StartImprov example_probe_failed_env] example_flow) = 2"
  by (simp add: example_probe_failed_env_def can_identify_queries_def flow_defs)

subsection \<open>Credentials\<close>

lemma try_call_provisioning_failed:
  "try_call r = Inl (ProvisioningFailed err) \<longleftrightarrow> r = Inl (ProvisioningFailed err)"
proof (cases r)
  case (Inl e)
  then show ?thesis by (cases e) simp_all
next
  case (Inr v)
  then show ?thesis by simp
qed

lemma credentials_do_provision_step [simp]:
  "credentials (snd (async_step_do_provision w)) = credentials w"
  by (auto simp: async_step_do_provision_def async_create_task_def
      split: option.splits task_status.splits)

lemma holds_credentials_irrelevant [simp]:
  "holds_credentials (log_call op w) = holds_credentials w"
  "holds_credentials (w\<lparr>device := d\<rparr>) = holds_credentials w"
  "holds_credentials (w\<lparr>can_identify := b\<rparr>) = holds_credentials w"
  "holds_credentials (w\<lparr>discovery_info := i\<rparr>) = holds_credentials w"
  "holds_credentials (w\<lparr>provision_result := r\<rparr>) = holds_credentials w"
  "holds_credentials (w\<lparr>credentials := Some c\<rparr>)"
  "holds_credentials (snd (async_step_authorize env w)) = holds_credentials w"
  "holds_credentials (snd (async_step_do_provision w)) = holds_credentials w"
  by (simp_all add: holds_credentials_def log_call_def)

lemma credentials_kept_provision:
  assumes "holds_credentials w"
  shows "holds_credentials (snd (async_step_provision user_input env w))"
  using assms
  by (cases "try_call (dev_need_authorization env)")
     (auto simp: async_step_provision_def Let_def split: option.splits)

lemma credentials_kept_start_improv:
  assumes "holds_credentials w"
  shows "holds_credentials (snd (async_step_start_improv env w))"
  using assms
  by (cases "try_call (dev_can_identify env)")
     (auto simp: async_step_start_improv_def async_step_main_menu_def Let_def
        credentials_kept_provision split: option.splits sum.splits)

lemma credentials_kept_step:
  assumes "holds_credentials w"
  shows "holds_credentials (snd (step c env w))"
proof (cases c)
  case (Identify user_input)
  with assms show ?thesis
    by (cases "try_call (dev_identify env)")
       (auto simp: async_step_identify_def Let_def credentials_kept_start_improv)
next
  case ProvisionDone
  with assms show ?thesis
    by (auto simp: async_step_provision_done_def split: option.splits)
qed (use assms in \<open>simp_all add: credentials_kept_start_improv credentials_kept_provision
      async_step_main_menu_def async_step_bluetooth_confirm_def\<close>)

lemma credentials_cleared_do_provision:
  assumes "credentials w = Some c" "credentials (snd (do_provision env w)) = None"
  shows "dev_provision env (ssid c) (password c) = Inl (ProvisioningFailed UNABLE_TO_CONNECT)"
proof -
  let ?w1 = "log_call (OpProvision (ssid c) (password c)) w"
  have w1: "credentials ?w1 = Some c" using assms(1) by (simp add: log_call_def)
  have auth: "credentials (snd
      (case async_step_authorize env ?w1 of
         (Return r, w2) \<Rightarrow> (Return (), w2\<lparr>provision_result := Some r\<rparr>)
       | (Raise e, w2) \<Rightarrow> (Raise e, w2)
       | (Await t, w2) \<Rightarrow> (Await t, w2))) = Some c"
    using credentials_authorize [of env ?w1] w1
    by (cases "async_step_authorize env ?w1") (auto split: outcome.splits)
  have ab: "credentials (abort_flows_with_same_unique_id ?w1) = Some c"
    using w1 by (simp add: abort_flows_result)
  show ?thesis
  proof (cases "try_call (dev_provision env (ssid c) (password c))")
    case (Inl e)
    show ?thesis
    proof (cases e)
      case (ProvisioningFailed err)
      with Inl assms auth w1 have "err = UNABLE_TO_CONNECT"
        by (cases err; cases "device w") (simp_all add: do_provision_def Let_def)
      with Inl ProvisioningFailed show ?thesis
        by (simp add: try_call_provisioning_failed)
    qed (use Inl assms w1 in \<open>simp_all add: do_provision_def Let_def split: if_splits\<close>)
  next
    case (Inr url)
    with assms ab show ?thesis
      by (auto simp: do_provision_def Let_def split: option.splits if_splits)
  qed
qed

lemma credentials_resume [simp]:
  "credentials (resume_flow_when_done t st w) = credentials w"
  by (simp add: resume_flow_when_done_def)

lemma credentials_cleared_task_runs:
  assumes "credentials w = Some c" "credentials (provision_task_runs t env w) = None"
  shows "dev_provision env (ssid c) (password c) = Inl (ProvisioningFailed UNABLE_TO_CONNECT)"
proof -
  have "credentials (snd (do_provision env w)) = None"
    using assms
    by (cases "do_provision env w")
       (auto simp: provision_task_runs_def split: if_splits outcome.splits)
  with assms(1) show ?thesis by (rule credentials_cleared_do_provision)
qed

lemma credentials_fold_update [simp]:
  "credentials (fold (\<lambda>h. on_state_update h state) hs w) = credentials w"
  by (induction hs arbitrary: w) (simp_all add: on_state_update_def authorized_event_set_def)

text \<open>
C9, as amended. The only event that takes the credentials away is a run of the
  provisioning task whose call of \<^verbatim>\<open>provision\<close> fails with
  \<open>ProvisioningFailed UNABLE_TO_CONNECT\<close>, and every such run of a pending task does.
  Every submission of the provision form stores the credentials of the input. The
  source holds no count of the clearings: the run \<open>example_retry_events\<close> clears the
  credentials twice, so the claim's "exactly once per flow" fails.
\<close>

theorem credentials_cleared_by_unable_to_connect_only:
  "(credentials w = Some c \<and> credentials (exec e w) = None \<longrightarrow>
      (\<exists>t env. e = TaskRuns t env
         \<and> dev_provision env (ssid c) (password c) = Inl (ProvisioningFailed UNABLE_TO_CONNECT)))
   \<and> (t < length (tasks w) \<and> kind (tasks w ! t) = ProvisionAttempt
        \<and> status (tasks w ! t) = Pending \<and> credentials w = Some c \<and> device w
        \<and> dev_provision env (ssid c) (password c) = Inl (ProvisioningFailed UNABLE_TO_CONNECT) \<longrightarrow>
      credentials (exec (TaskRuns t env) w) = None)
   \<and> (device w \<longrightarrow>
      credentials (snd (step (Provision (Some ui)) env w)) =
        Some \<lparr>password = (case input_password ui of None \<Rightarrow> [] | Some p \<Rightarrow> p),
              ssid = input_ssid ui\<rparr>)"
proof -
  have only: "\<exists>t env. e = TaskRuns t env
         \<and> dev_provision env (ssid c) (password c) = Inl (ProvisioningFailed UNABLE_TO_CONNECT)"
    if h: "credentials w = Some c" "credentials (exec e w) = None"
  proof (cases e)
    case (Step call env)
    with h credentials_kept_step [of w call env] show ?thesis
      by (simp add: holds_credentials_def)
  next
    case (TaskRuns t env)
    with h credentials_cleared_task_runs [of w c t env] show ?thesis by simp
  next
    case (Notification state)
    with h show ?thesis by (simp add: state_update_def)
  next
    case FlowAborted
    with h show ?thesis by (simp add: flow_manager_async_abort_def)
  qed
  have clears: "credentials (exec (TaskRuns t env) w) = None"
    if "t < length (tasks w)" "kind (tasks w ! t) = ProvisionAttempt"
      "status (tasks w ! t) = Pending" "credentials w = Some c" "device w"
      "dev_provision env (ssid c) (password c) = Inl (ProvisioningFailed UNABLE_TO_CONNECT)"
    using that by (simp add: provision_task_runs_def do_provision_def)
  have captured: "credentials (snd (step (Provision (Some ui)) env w)) =
        Some \<lparr>password = (case input_password ui of None \<Rightarrow> [] | Some p \<Rightarrow> p),
              ssid = input_ssid ui\<rparr>"
    if "device w"
    using that
    by (cases "try_call (dev_need_authorization env)")
       (auto simp: async_step_provision_def Let_def log_call_def)
  from only clears captured show ?thesis by blast
qed

theorem credentials_cleared_by_unable_to_connect_only_witness:
  "credentials example_provisioning = Some \<lparr>password = ''secret'', ssid = ''net''\<rparr>
   \<and> credentials (exec (TaskRuns 0 (example_failing_env UNABLE_TO_CONNECT)) example_provisioning) = None
   \<and> credentials (snd (step (Provision (Some example_input)) example_open_env example_confirmed)) =
       Some \<lparr>password = ''secret'', ssid = ''net''\<rparr>"
proof -
  have h: "0 < length (tasks example_provisioning)"
      "kind (tasks example_provisioning ! 0) = ProvisionAttempt"
      "status (tasks example_provisioning ! 0) = Pending"
      "credentials example_provisioning = Some \<lparr>password = ''secret'', ssid = ''net''\<rparr>"
      "device example_provisioning"
      "dev_provision (example_failing_env UNABLE_TO_CONNECT)
         (ssid \<lparr>password = ''secret'', ssid = ''net''\<rparr>)
         (password \<lparr>password = ''secret'', ssid = ''net''\<rparr>) =
       Inl (ProvisioningFailed UNABLE_TO_CONNECT)"
      "device example_confirmed"
    by (simp_all add: flow_defs)
  from credentials_cleared_by_unable_to_connect_only
    [of example_provisioning "\<lparr>password = ''secret'', ssid = ''net''\<rparr>" _ 0
       "example_failing_env UNABLE_TO_CONNECT"] h
  have a: "credentials (exec (TaskRuns 0 (example_failing_env UNABLE_TO_CONNECT))
      example_provisioning) = None"
    by blast
  from credentials_cleared_by_unable_to_connect_only
    [of example_confirmed _ _ _ example_open_env example_input] h(7)
  have "credentials (snd (step (Provision (Some example_input)) example_open_env example_confirmed)) =
        Some \<lparr>password = (case input_password example_input of None \<Rightarrow> [] | Some p \<Rightarrow> p),
              ssid = input_ssid example_input\<rparr>"
    by blast
  then have b: "credentials (snd (step (Provision (Some example_input)) example_open_env
      example_confirmed)) = Some \<lparr>password = ''secret'', ssid = ''net''\<rparr>"
    by (simp add: example_input_def)
  from h(4) a b show ?thesis by blast
qed

text \<open>Two failures to connect in one flow take the credentials away twice.\<close>

theorem credentials_cleared_twice:
  "credential_clears example_retry_events example_provisioning = 2"
  by (simp add: example_retry_events_def flow_defs)

subsection \<open>Release of the subscription\<close>

text \<open>
C5, as amended. After any sequence of events: when the authorization wait has
  finished, the callback of that wait is the one registration the session holds, its
  unsubscribe function has not been called, and the authorize step calls it once and
  leaves no registration; with no wait in flight no registration is held; no
  unsubscribe function is ever called twice, and no released registration is still
  held. The class has no code that runs when the flow manager aborts the flow: the
  abort releases nothing. So a flow aborted during the wait leaves its callback
  registered, and the claim's release "on every flow outcome" fails.
\<close>

theorem subscription_released_when_wait_completes:
  assumes "w = run evs (discovered fid uid flows)"
  shows "(\<forall>t. authorize_task w = Some t \<and> task_status w t = Finished \<longrightarrow>
            subscriptions w = [t] \<and> t \<notin> set (unsub_calls w)
            \<and> fst (step Authorize env w) = Return (async_show_progress_done ''provision'')
            \<and> subscriptions (snd (step Authorize env w)) = []
            \<and> unsub_calls (snd (step Authorize env w)) = unsub_calls w @ [t])
    \<and> (authorize_task w = None \<longrightarrow> subscriptions w = [])
    \<and> distinct (unsub_calls w)
    \<and> set (subscriptions w) \<inter> set (unsub_calls w) = {}
    \<and> subscriptions (exec FlowAborted w) = subscriptions w
    \<and> unsub_calls (exec FlowAborted w) = unsub_calls w"
proof -
  have wf: "wf w" unfolding assms by (intro wf_run wf_discovered)
  have fin: "subscriptions w = [t] \<and> t \<notin> set (unsub_calls w)
            \<and> fst (step Authorize env w) = Return (async_show_progress_done ''provision'')
            \<and> subscriptions (snd (step Authorize env w)) = []
            \<and> unsub_calls (snd (step Authorize env w)) = unsub_calls w @ [t]"
    if h: "authorize_task w = Some t" "task_status w t = Finished" for t
  proof -
    from wf h(1) have d: "device w" "subscriptions w = [t]" "t \<notin> set (unsub_calls w)"
      by (simp_all add: wf_def)
    from wf_unsub [OF wf] h(1) have u: "unsub w = Some t" by simp
    from authorize_finished [OF d(1) h u, of env] d show ?thesis by simp
  qed
  have none: "subscriptions w = []" if "authorize_task w = None"
    using wf that by (simp add: wf_def)
  have dist: "distinct (unsub_calls w)" using wf by (simp add: wf_def)
  have disj: "set (subscriptions w) \<inter> set (unsub_calls w) = {}"
    using wf by (cases "authorize_task w") (simp_all add: wf_def)
  have ab: "subscriptions (exec FlowAborted w) = subscriptions w"
      "unsub_calls (exec FlowAborted w) = unsub_calls w"
    by (simp_all add: flow_manager_async_abort_def)
  from fin none dist disj ab show ?thesis by blast
qed

theorem subscription_released_when_wait_completes_witness:
  "authorize_task example_authorized = Some 0
   \<and> task_status example_authorized 0 = Finished
   \<and> subscriptions example_authorized = [0]
   \<and> subscriptions (snd (step Authorize example_env example_authorized)) = []
   \<and> unsub_calls (snd (step Authorize example_env example_authorized)) =
       unsub_calls example_authorized @ [0]"
proof -
  have r: "example_authorized =
      run [Step StartImprov example_env, Step (Provision (Some example_input)) example_env,
           Notification AUTHORIZED]
        (discovered ''f1'' (Some ''AA'')
          [(''f1'', Some ''AA''), (''f2'', Some ''AA''), (''f3'', Some ''BB'')])"
    by (simp add: example_authorized_def example_flow_def)
  have h: "authorize_task example_authorized = Some 0"
      "task_status example_authorized 0 = Finished"
    by (simp_all add: example_authorized_def flow_defs)
  from subscription_released_when_wait_completes [OF r, of example_env] h
  show ?thesis by blast
qed

text \<open>
  The example flow is aborted during its authorization wait: it is no longer in
  progress, its callback is still registered and no unsubscribe function was called.
\<close>

theorem subscription_outlives_aborted_flow:
  "subscriptions example_waiting = [0]
   \<and> aborted (exec FlowAborted example_waiting) = [''f1'']
   \<and> ''f1'' \<notin> fst ` set (in_progress (exec FlowAborted example_waiting))
   \<and> subscriptions (exec FlowAborted example_waiting) = [0]
   \<and> unsub_calls (exec FlowAborted example_waiting) = []"
  by (simp add: example_waiting_def flow_defs)

subsection \<open>Failures of the device session\<close>

lemma try_call_raises:
  assumes "try_call r = Inl e"
  shows "(e = CommandFailed \<and> r = Inl CommandFailed)
    \<or> (\<exists>err. e = ProvisioningFailed err \<and> r = Inl (ProvisioningFailed err))
    \<or> e = AbortFlow ''cannot_connect'' \<or> e = AbortFlow ''characteristic_missing''
    \<or> e = AbortFlow ''unknown''"
proof (cases r)
  case (Inl x)
  with assms show ?thesis by (cases x) auto
next
  case (Inr v)
  with assms show ?thesis by simp
qed

lemma try_call_benign:
  assumes "\<not> command_failure r"
  obtains (returns) v where "try_call r = Inr v"
    | (aborts) reason where "try_call r = Inl (AbortFlow reason)"
proof (cases "try_call r")
  case (Inl e)
  from try_call_raises [OF Inl] assms Inl aborts show ?thesis
    by (auto simp: command_failure_def)
next
  case (Inr v)
  with returns show ?thesis .
qed

lemma failure_free_append [simp]:
  "failure_free (ts @ [\<lparr>kind = k, status = Pending\<rparr>]) = failure_free ts"
  by (auto simp: failure_free_def)

lemma failure_free_update:
  assumes "failure_free ts" "st = Finished \<or> st = Failed AssertionError"
  shows "failure_free (ts[t := (ts ! t)\<lparr>status := st\<rparr>])"
proof -
  have "set (ts[t := (ts ! t)\<lparr>status := st\<rparr>]) \<subseteq> insert ((ts ! t)\<lparr>status := st\<rparr>) (set ts)"
    by (rule set_update_subset_insert)
  with assms show ?thesis by (auto simp: failure_free_def)
qed

lemma failed_task:
  "failure_free (tasks w) \<Longrightarrow> task_status w t = Failed e \<Longrightarrow> e = AssertionError"
  by (auto simp: failure_free_def task_status_def split: if_splits)

lemma failure_free_authorize [simp]:
  "failure_free (tasks (snd (async_step_authorize env w))) = failure_free (tasks w)"
  by (cases "try_call (dev_subscribe_state_updates env)")
     (auto simp: async_step_authorize_def async_create_task_def log_call_def Let_def
        split: option.splits task_status.splits)

lemma failure_free_do_provision_step [simp]:
  "failure_free (tasks (snd (async_step_do_provision w))) = failure_free (tasks w)"
  by (auto simp: async_step_do_provision_def async_create_task_def
      split: option.splits task_status.splits)

lemma failure_free_provision [simp]:
  "failure_free (tasks (snd (async_step_provision user_input env w))) = failure_free (tasks w)"
  by (cases "try_call (dev_need_authorization env)")
     (auto simp: async_step_provision_def Let_def log_call_def split: option.splits)

lemma failure_free_start_improv [simp]:
  "failure_free (tasks (snd (async_step_start_improv env w))) = failure_free (tasks w)"
  by (cases "try_call (dev_can_identify env)")
     (auto simp: async_step_start_improv_def async_step_main_menu_def Let_def log_call_def
        split: option.splits sum.splits)

lemma failure_free_step [simp]:
  "failure_free (tasks (snd (step c env w))) = failure_free (tasks w)"
proof (cases c)
  case (Identify user_input)
  then show ?thesis
    by (cases "try_call (dev_identify env)")
       (auto simp: async_step_identify_def Let_def log_call_def)
next
  case ProvisionDone
  then show ?thesis
    by (auto simp: async_step_provision_done_def split: option.splits)
qed (simp_all add: async_step_main_menu_def async_step_bluetooth_confirm_def)

lemma raise_authorize:
  assumes "\<not> command_failure (dev_subscribe_state_updates env)" "failure_free (tasks w)"
    and "fst (async_step_authorize env w) = Raise e"
  shows "e = AssertionError"
proof (cases "device w")
  case False
  with assms show ?thesis by (simp add: async_step_authorize_def)
next
  case dev: True
  show ?thesis
  proof (cases "authorize_task w")
    case None
    from assms(1) show ?thesis
    proof (cases rule: try_call_benign)
      case (returns v)
      with dev None assms(3) show ?thesis
        by (simp add: async_step_authorize_def async_create_task_def Let_def)
    next
      case (aborts reason)
      with dev None assms(3) show ?thesis
        by (simp add: async_step_authorize_def Let_def)
    qed
  next
    case (Some t)
    with dev assms(3) failed_task [OF assms(2), of t] show ?thesis
      by (cases "task_status w t") (simp_all add: async_step_authorize_def Let_def)
  qed
qed

lemma raise_do_provision_step:
  assumes "failure_free (tasks w)" "fst (async_step_do_provision w) = Raise e"
  shows "e = AssertionError"
proof (cases "provision_task w")
  case None
  with assms show ?thesis
    by (simp add: async_step_do_provision_def async_create_task_def)
next
  case (Some t)
  with assms(2) failed_task [OF assms(1), of t] show ?thesis
    by (cases "task_status w t") (simp_all add: async_step_do_provision_def)
qed

lemma raise_provision:
  assumes "no_command_failures env" "failure_free (tasks w)"
    and "fst (async_step_provision user_input env w) = Raise e"
  shows "e = AssertionError"
proof (cases "device w \<and> \<not> (user_input = None \<and> credentials w = None)")
  case False
  with assms(3) show ?thesis by (auto simp: async_step_provision_def split: if_splits)
next
  case True
  let ?w2 = "log_call OpNeedAuthorization
      (case user_input of None \<Rightarrow> w
       | Some ui \<Rightarrow> w\<lparr>credentials :=
           Some \<lparr>password = (case input_password ui of None \<Rightarrow> [] | Some p \<Rightarrow> p),
                 ssid = input_ssid ui\<rparr>\<rparr>)"
  have ff: "failure_free (tasks ?w2)"
    using assms(2) by (simp add: log_call_def split: option.splits)
  from assms(1) have "\<not> command_failure (dev_need_authorization env)"
      and sub: "\<not> command_failure (dev_subscribe_state_updates env)"
    by (simp_all add: no_command_failures_def)
  then show ?thesis
  proof (cases rule: try_call_benign)
    case (returns v)
    with True assms(3) raise_authorize [OF sub ff, of e] raise_do_provision_step [OF ff, of e]
    show ?thesis by (auto simp: async_step_provision_def Let_def split: if_splits)
  next
    case (aborts reason)
    with True assms(3) show ?thesis
      by (auto simp: async_step_provision_def Let_def split: if_splits)
  qed
qed

lemma raise_start_improv:
  assumes "no_command_failures env" "advertisement_parses env" "failure_free (tasks w)"
    and "fst (async_step_start_improv env w) = Raise e"
  shows "e = AssertionError"
proof -
  have p: "fst (async_step_provision None env w') = Raise e \<Longrightarrow> e = AssertionError"
    if "tasks w' = tasks w" for w'
    using raise_provision [OF assms(1), of w' None e] assms(3) that by simp
  from assms(1) have "\<not> command_failure (dev_can_identify env)"
    by (simp add: no_command_failures_def)
  then show ?thesis
  proof (cases rule: try_call_benign)
    case (returns v)
    with assms(2,4) show ?thesis
      by (auto simp: async_step_start_improv_def async_step_main_menu_def Let_def log_call_def
          advertisement_parses_def split: if_splits option.splits sum.splits dest!: p [rotated])
  next
    case (aborts reason)
    with assms(2,4) show ?thesis
      by (auto simp: async_step_start_improv_def async_step_main_menu_def Let_def log_call_def
          advertisement_parses_def split: if_splits option.splits sum.splits dest!: p [rotated])
  qed
qed

lemma raise_step:
  assumes "no_command_failures env" "advertisement_parses env" "failure_free (tasks w)"
    and "fst (step c env w) = Raise e"
  shows "e = AssertionError"
proof (cases c)
  case (BluetoothConfirm user_input)
  with assms(4) raise_start_improv [OF assms(1-3), of e] show ?thesis
    by (auto simp: async_step_bluetooth_confirm_def split: if_splits)
next
  case StartImprov
  with assms(4) raise_start_improv [OF assms(1-3), of e] show ?thesis by simp
next
  case MainMenu
  with assms(4) show ?thesis by (simp add: async_step_main_menu_def)
next
  case (Identify user_input)
  from assms(1) have "\<not> command_failure (dev_identify env)"
    by (simp add: no_command_failures_def)
  then show ?thesis
  proof (cases rule: try_call_benign)
    case (returns v)
    with Identify assms(4) raise_start_improv [OF assms(1-3), of e] show ?thesis
      by (auto simp: async_step_identify_def Let_def split: if_splits)
  next
    case (aborts reason)
    with Identify assms(4) raise_start_improv [OF assms(1-3), of e] show ?thesis
      by (auto simp: async_step_identify_def Let_def split: if_splits)
  qed
next
  case (Provision user_input)
  with assms(4) raise_provision [OF assms(1,3), of user_input e] show ?thesis by simp
next
  case DoProvision
  with assms(4) raise_do_provision_step [OF assms(3), of e] show ?thesis by simp
next
  case ProvisionDone
  with assms(4) show ?thesis
    by (auto simp: async_step_provision_done_def split: option.splits)
next
  case Authorize
  from assms(1) have "\<not> command_failure (dev_subscribe_state_updates env)"
    by (simp add: no_command_failures_def)
  from raise_authorize [OF this assms(3), of e] Authorize assms(4) show ?thesis by simp
qed

lemma raise_do_provision:
  assumes "no_command_failures env" "failure_free (tasks w)"
    and "fst (do_provision env w) = Raise e"
  shows "e = AssertionError"
proof (cases "credentials w")
  case None
  with assms(3) show ?thesis by (simp add: do_provision_def)
next
  case (Some c)
  show ?thesis
  proof (cases "device w")
    case False
    with Some assms(3) show ?thesis by (simp add: do_provision_def)
  next
    case True
    let ?w1 = "log_call (OpProvision (ssid c) (password c)) w"
    from assms(1) have sub: "\<not> command_failure (dev_subscribe_state_updates env)"
      and prov: "dev_provision env (ssid c) (password c) \<noteq> Inl CommandFailed"
      by (simp_all add: no_command_failures_def)
    have ff: "failure_free (tasks ?w1)" using assms(2) by (simp add: log_call_def)
    have auth: "fst (case async_step_authorize env ?w1 of
         (Return r, w2) \<Rightarrow> (Return (), w2\<lparr>provision_result := Some r\<rparr>)
       | (Raise e, w2) \<Rightarrow> (Raise e, w2)
       | (Await t, w2) \<Rightarrow> (Await t, w2)) = Raise e \<Longrightarrow> e = AssertionError"
      using raise_authorize [OF sub ff, of e]
      by (cases "async_step_authorize env ?w1") (auto split: outcome.splits)
    show ?thesis
    proof (cases "try_call (dev_provision env (ssid c) (password c))")
      case (Inl x)
      from try_call_raises [OF Inl] prov Inl Some True assms(3) auth show ?thesis
        by (auto simp: do_provision_def Let_def split: if_splits)
    next
      case (Inr url)
      with Some True assms(3) show ?thesis
        by (auto simp: do_provision_def Let_def split: option.splits if_splits)
    qed
  qed
qed

lemma failure_free_do_provision [simp]:
  "failure_free (tasks (snd (do_provision env w))) = failure_free (tasks w)"
proof (cases "credentials w")
  case None
  then show ?thesis by (simp add: do_provision_def)
next
  case (Some c)
  let ?w1 = "log_call (OpProvision (ssid c) (password c)) w"
  have auth: "failure_free (tasks (snd (case async_step_authorize env ?w1 of
         (Return r, w2) \<Rightarrow> (Return (), w2\<lparr>provision_result := Some r\<rparr>)
       | (Raise e, w2) \<Rightarrow> (Raise e, w2)
       | (Await t, w2) \<Rightarrow> (Await t, w2)))) = failure_free (tasks w)"
  proof -
    obtain o' wa where a: "async_step_authorize env ?w1 = (o', wa)"
      by (cases "async_step_authorize env ?w1")
    have "failure_free (tasks (snd (async_step_authorize env ?w1))) = failure_free (tasks ?w1)"
      by (rule failure_free_authorize)
    then have "failure_free (tasks wa) = failure_free (tasks w)"
      unfolding a by (simp add: log_call_def)
    then show ?thesis unfolding a by (cases o') simp_all
  qed
  show ?thesis
  proof (cases "try_call (dev_provision env (ssid c) (password c))")
    case (Inl x)
    with Some auth show ?thesis
      by (cases x) (auto simp: do_provision_def Let_def log_call_def)
  next
    case (Inr url)
    with Some show ?thesis
      by (auto simp: do_provision_def Let_def log_call_def split: option.splits)
  qed
qed

lemma failure_free_task_runs:
  assumes "no_command_failures env" "failure_free (tasks w)"
  shows "failure_free (tasks (provision_task_runs t env w))"
proof -
  obtain r w' where body: "do_provision env w = (r, w')" by (cases "do_provision env w")
  have ff: "failure_free (tasks w')"
    using failure_free_do_provision [of env w] body assms(2) by simp
  show ?thesis
  proof (cases r)
    case (Return u)
    with body assms(2) failure_free_update [OF ff, of Finished t] show ?thesis
      by (simp add: provision_task_runs_def resume_flow_when_done_def)
  next
    case (Raise e)
    with raise_do_provision [OF assms, of e] body have "e = AssertionError" by simp
    with Raise body assms(2) failure_free_update [OF ff, of "Failed AssertionError" t]
    show ?thesis by (simp add: provision_task_runs_def resume_flow_when_done_def)
  next
    case (Await h)
    with body assms(2) show ?thesis by (simp add: provision_task_runs_def)
  qed
qed

lemma failure_free_fold_update:
  "failure_free (tasks w) \<Longrightarrow> failure_free (tasks (fold (\<lambda>h. on_state_update h state) hs w))"
proof (induction hs arbitrary: w)
  case Nil
  then show ?case by simp
next
  case (Cons h hs)
  have "failure_free (tasks (on_state_update h state w))"
    using Cons.prems failure_free_update [of "tasks w" Finished h]
    by (simp add: on_state_update_def authorized_event_set_def resume_flow_when_done_def)
  then show ?case using Cons.IH by simp
qed

lemma failure_free_exec:
  assumes "benign_event e" "failure_free (tasks w)"
  shows "failure_free (tasks (exec e w))"
  using assms
  by (cases e)
     (simp_all add: benign_event_def failure_free_task_runs state_update_def
        failure_free_fold_update flow_manager_async_abort_def)

lemma failure_free_run:
  assumes "\<forall>e \<in> set evs. benign_event e" "failure_free (tasks w)"
  shows "failure_free (tasks (run evs w))"
  using assms unfolding run_def
  by (induction evs arbitrary: w) (simp_all add: failure_free_exec)

text \<open>
  C4, as amended. \<^verbatim>\<open>_try_call\<close> lets a \<open>CommandFailed\<close> (and its subclass
  \<open>ProvisioningFailed\<close>) pass and turns every other failure into \<open>AbortFlow\<close> with
  reason \<open>cannot_connect\<close>, \<open>characteristic_missing\<close> or \<open>unknown\<close>. At each of the
  five call sites an \<open>AbortFlow\<close> becomes the abort result with that reason (stored as
  the provisioning result, for \<^verbatim>\<open>provision\<close>), and a \<open>ProvisioningFailed\<close> of
  \<^verbatim>\<open>provision\<close> with another error code becomes the abort \<open>unknown\<close>. Hence, in a run
  whose operations raise no command failure (but for \<open>ProvisioningFailed\<close> from
  \<^verbatim>\<open>provision\<close>) and whose advertised service data can be read (the start-improv step
  reads them outside \<^verbatim>\<open>_try_call\<close>), no step and no task body raises anything but a
  failed assertion of the flow itself. The clause \<^verbatim>\<open>except CommandFailed: raise\<close> is in
  the source by design; a \<open>CommandFailed\<close> from \<^verbatim>\<open>need_authorization\<close> leaves the
  provision step as an exception, so the claim's "any failure" fails.
\<close>

theorem failures_converted_unless_command_failed:
  assumes "w = run evs (discovered fid uid flows)" "\<forall>e \<in> set evs. benign_event e"
    and "no_command_failures env" "advertisement_parses env"
  shows "(\<forall>e. fst (step c env w) = Raise e \<longrightarrow> e = AssertionError)
    \<and> (\<forall>e. fst (do_provision env w) = Raise e \<longrightarrow> e = AssertionError)
    \<and> (\<forall>e. try_call r = Inl e \<longrightarrow>
          e = CommandFailed \<or> (\<exists>err. e = ProvisioningFailed err)
          \<or> e = AbortFlow ''cannot_connect'' \<or> e = AbortFlow ''characteristic_missing''
          \<or> e = AbortFlow ''unknown'')
    \<and> (\<forall>w' env' state reason.
          discovery_info w' \<and> can_identify w' = None \<and> last_service_info env' = Some (Inr state)
          \<and> state \<noteq> PROVISIONING \<and> state \<noteq> PROVISIONED
          \<and> try_call (dev_can_identify env') = Inl (AbortFlow reason) \<longrightarrow>
          fst (step StartImprov env' w') = Return (async_abort reason None))
    \<and> (\<forall>w' env' reason.
          device w' \<and> try_call (dev_identify env') = Inl (AbortFlow reason) \<longrightarrow>
          fst (step (Identify None) env' w') = Return (async_abort reason None))
    \<and> (\<forall>w' env' reason user_input.
          device w' \<and> (user_input \<noteq> None \<or> credentials w' \<noteq> None)
          \<and> try_call (dev_need_authorization env') = Inl (AbortFlow reason) \<longrightarrow>
          fst (step (Provision user_input) env' w') = Return (async_abort reason None))
    \<and> (\<forall>w' env' reason.
          device w' \<and> authorize_task w' = None
          \<and> try_call (dev_subscribe_state_updates env') = Inl (AbortFlow reason) \<longrightarrow>
          fst (step Authorize env' w') = Return (async_abort reason None))
    \<and> (\<forall>w' env' reason cr.
          device w' \<and> credentials w' = Some cr
          \<and> try_call (dev_provision env' (ssid cr) (password cr)) = Inl (AbortFlow reason) \<longrightarrow>
          fst (do_provision env' w') = Return ()
          \<and> provision_result (snd (do_provision env' w')) = Some (async_abort reason None))
    \<and> (\<forall>w' env' cr.
          device w' \<and> credentials w' = Some cr
          \<and> dev_provision env' (ssid cr) (password cr) = Inl (ProvisioningFailed OTHER_ERROR) \<longrightarrow>
          fst (do_provision env' w') = Return ()
          \<and> provision_result (snd (do_provision env' w')) = Some (async_abort ''unknown'' None))"
proof -
  have "failure_free (tasks (discovered fid uid flows))"
    by (simp add: discovered_def failure_free_def)
  with assms(2) have ff: "failure_free (tasks w)"
    unfolding assms(1) by (rule failure_free_run)
  have 1: "\<forall>e. fst (step c env w) = Raise e \<longrightarrow> e = AssertionError"
    using raise_step [OF assms(3,4) ff] by blast
  have 2: "\<forall>e. fst (do_provision env w) = Raise e \<longrightarrow> e = AssertionError"
    using raise_do_provision [OF assms(3) ff] by blast
  have 3: "\<forall>e. try_call r = Inl e \<longrightarrow>
          e = CommandFailed \<or> (\<exists>err. e = ProvisioningFailed err)
          \<or> e = AbortFlow ''cannot_connect'' \<or> e = AbortFlow ''characteristic_missing''
          \<or> e = AbortFlow ''unknown''"
    using try_call_raises [of r] by blast
  have 4: "\<forall>w' env' state reason.
          discovery_info w' \<and> can_identify w' = None \<and> last_service_info env' = Some (Inr state)
          \<and> state \<noteq> PROVISIONING \<and> state \<noteq> PROVISIONED
          \<and> try_call (dev_can_identify env') = Inl (AbortFlow reason) \<longrightarrow>
          fst (step StartImprov env' w') = Return (async_abort reason None)"
    by (simp add: async_step_start_improv_def Let_def)
  have 5: "\<forall>w' env' reason.
          device w' \<and> try_call (dev_identify env') = Inl (AbortFlow reason) \<longrightarrow>
          fst (step (Identify None) env' w') = Return (async_abort reason None)"
    by (simp add: async_step_identify_def Let_def)
  have 6: "\<forall>w' env' reason user_input.
          device w' \<and> (user_input \<noteq> None \<or> credentials w' \<noteq> None)
          \<and> try_call (dev_need_authorization env') = Inl (AbortFlow reason) \<longrightarrow>
          fst (step (Provision user_input) env' w') = Return (async_abort reason None)"
    by (auto simp: async_step_provision_def Let_def)
  have 7: "\<forall>w' env' reason.
          device w' \<and> authorize_task w' = None
          \<and> try_call (dev_subscribe_state_updates env') = Inl (AbortFlow reason) \<longrightarrow>
          fst (step Authorize env' w') = Return (async_abort reason None)"
    by (simp add: async_step_authorize_def Let_def)
  have 8: "\<forall>w' env' reason cr.
          device w' \<and> credentials w' = Some cr
          \<and> try_call (dev_provision env' (ssid cr) (password cr)) = Inl (AbortFlow reason) \<longrightarrow>
          fst (do_provision env' w') = Return ()
          \<and> provision_result (snd (do_provision env' w')) = Some (async_abort reason None)"
    by (simp add: do_provision_def Let_def)
  have 9: "\<forall>w' env' cr.
          device w' \<and> credentials w' = Some cr
          \<and> dev_provision env' (ssid cr) (password cr) = Inl (ProvisioningFailed OTHER_ERROR) \<longrightarrow>
          fst (do_provision env' w') = Return ()
          \<and> provision_result (snd (do_provision env' w')) = Some (async_abort ''unknown'' None)"
    by (simp add: do_provision_def Let_def)
  from 1 2 3 4 5 6 7 8 9 show ?thesis by blast
qed

theorem failures_converted_unless_command_failed_witness:
  "no_command_failures example_link_lost_env
   \<and> advertisement_parses example_link_lost_env
   \<and> benign_event (Step StartImprov example_env)
   \<and> benign_event (Step (Provision (Some example_input)) example_open_env)
   \<and> fst (step (Provision None) example_link_lost_env example_provisioning) \<noteq> Raise BleakError
   \<and> fst (step (Provision None) example_link_lost_env example_provisioning) =
       Return (async_abort ''cannot_connect'' None)"
proof -
  have r: "example_provisioning =
      run [Step StartImprov example_env, Step (Provision (Some example_input)) example_open_env]
        (discovered ''f1'' (Some ''AA'')
          [(''f1'', Some ''AA''), (''f2'', Some ''AA''), (''f3'', Some ''BB'')])"
    by (simp add: example_provisioning_def example_confirmed_def example_flow_def run_def)
  have b: "benign_event (Step StartImprov example_env)"
      "benign_event (Step (Provision (Some example_input)) example_open_env)"
    and n: "no_command_failures example_link_lost_env"
      "advertisement_parses example_link_lost_env"
    by (simp_all add: benign_event_def no_command_failures_def command_failure_def
        advertisement_parses_def example_link_lost_env_def example_open_env_def example_env_def)
  from b have bs: "\<forall>e \<in> set [Step StartImprov example_env,
      Step (Provision (Some example_input)) example_open_env]. benign_event e"
    by simp
  have h: "device example_provisioning" "credentials example_provisioning \<noteq> None"
      "try_call (dev_need_authorization example_link_lost_env) = Inl (AbortFlow ''cannot_connect'')"
    by (simp_all add: example_link_lost_env_def flow_defs)
  note t = failures_converted_unless_command_failed
    [where c = "Provision None" and r = "Inr ()", OF r bs n]
  from t [THEN conjunct1, THEN spec, of BleakError]
  have 1: "fst (step (Provision None) example_link_lost_env example_provisioning) \<noteq> Raise BleakError"
    by simp
  have 2: "fst (step (Provision None) example_link_lost_env example_provisioning) =
       Return (async_abort ''cannot_connect'' None)"
    by (rule t [THEN conjunct2, THEN conjunct2, THEN conjunct2, THEN conjunct2, THEN conjunct2,
          THEN conjunct1, rule_format])
       (use h in simp)
  from n b 1 2 show ?thesis by blast
qed

text \<open>
  The provision step of the example flow, credentials entered, on a device whose
  \<^verbatim>\<open>need_authorization\<close> raises \<open>CommandFailed\<close>: the step raises it.
\<close>

theorem command_failure_propagates:
  "fst (step (Provision None) example_command_failed_env example_provisioning) = Raise CommandFailed"
  by (simp add: example_command_failed_env_def flow_defs)

end
